theory Spec2Isabelle
  imports Main "HOL-Library.Word"
begin

unbundle bit_operations_syntax

section \<open>The Microkit monitor: data model\<close>

text \<open>
  The monitor (\<^verbatim>\<open>monitor/src/main.c\<close>) runs on a 64-bit seL4: \<^verbatim>\<open>seL4_Word\<close> and
  \<^verbatim>\<open>uintptr_t\<close> are 64-bit words, \<^verbatim>\<open>unsigned\<close> is a 32-bit word. Arithmetic on both wraps
  around, as it does on words.
\<close>

type_synonym seL4_Word = "64 word"
type_synonym unsigned = "32 word"

definition MAX_PDS :: nat where
  "MAX_PDS = 64"

definition MAX_UNTYPED_REGIONS :: nat where
  "MAX_UNTYPED_REGIONS = 256"

text \<open>
  A function of the monitor either returns or ends in \<^verbatim>\<open>fail\<close>, which prints and then
  spins in \<^verbatim>\<open>for (;;) {}\<close>: \<open>Halted\<close> is that terminal state, from which nothing more
  is executed.
\<close>

datatype 'a outcome = Returned 'a | Halted

subsection \<open>Console output (\<^verbatim>\<open>util.c\<close>)\<close>

text \<open>
  The console is the sequence of characters handed to \<^verbatim>\<open>putc\<close>, oldest first. A C string
  is modelled by its characters before the terminating NUL.
\<close>

definition puts :: "string \<Rightarrow> string \<Rightarrow> string" where
  "puts s con = con @ s"

definition hexchar :: "nat \<Rightarrow> char" where
  "hexchar v = (if v < 10 then char_of (48 + v) else char_of (87 + v))"

text \<open>
  \<^verbatim>\<open>puthex32\<close> and \<^verbatim>\<open>puthex64\<close> fill the buffer from its last digit to its first, taking
  the low nibble and shifting right by 4 each time: the digit at distance \<open>k\<close> from the end
  is nibble \<open>k\<close> of the value.
\<close>

definition hex_digits :: "nat \<Rightarrow> 'a::len word \<Rightarrow> string" where
  "hex_digits n val = map (\<lambda>k. hexchar (unat (drop_bit (4 * k) val AND 0xf))) (rev [0..<n])"

definition puthex32 :: "32 word \<Rightarrow> string \<Rightarrow> string" where
  "puthex32 val con = puts (''0x'' @ hex_digits 8 val) con"

definition puthex64 :: "64 word \<Rightarrow> string \<Rightarrow> string" where
  "puthex64 val con = puts (''0x'' @ hex_digits 16 val) con"

text \<open>\<^verbatim>\<open>fail\<close>: three \<^verbatim>\<open>puts\<close>, then the endless loop.\<close>

definition fail_output :: "string \<Rightarrow> string \<Rightarrow> string" where
  "fail_output s con = puts [CHR 0x0A] (puts s (puts ''FAIL: '' con))"

subsection \<open>Switch tables\<close>

text \<open>
  A \<^verbatim>\<open>switch\<close> whose cases each return a string literal is a table from the case labels
  to the strings, with the \<^verbatim>\<open>default\<close> (or the \<^verbatim>\<open>return\<close> after the switch) for every
  other value.
\<close>

definition switch_string :: "(64 word \<times> string) list \<Rightarrow> string \<Rightarrow> 64 word \<Rightarrow> string" where
  "switch_string table dflt code = (case map_of table code of Some s \<Rightarrow> s | None \<Rightarrow> dflt)"

text \<open>
  \<^verbatim>\<open>sel4_strerror\<close>. The values of the \<^verbatim>\<open>seL4_Error\<close> enumeration come from libsel4, which is
  not part of this repository; they are the enumeration's order, from
  \<^verbatim>\<open>seL4_NoError = 0\<close>. None of them is negative, and the compilers of the build (GCC and
  Clang, for 64-bit targets) give such an enumeration the type \<^verbatim>\<open>unsigned int\<close>: a value of
  type \<^verbatim>\<open>seL4_Error\<close> is a 32-bit word. The enumeration constant \<^verbatim>\<open>seL4_NoError\<close> is the
  number 0 at the width of the value it is compared with.
\<close>

type_synonym seL4_Error = "32 word"

definition seL4_NoError :: "'a::len word" where
  "seL4_NoError = 0"

definition sel4_strerror_table :: "(64 word \<times> string) list" where
  "sel4_strerror_table =
    [(0, ''seL4_NoError''),
     (1, ''seL4_InvalidArgument''),
     (2, ''seL4_InvalidCapability''),
     (3, ''seL4_IllegalOperation''),
     (4, ''seL4_RangeError''),
     (5, ''seL4_AlignmentError''),
     (6, ''seL4_FailedLookup''),
     (7, ''seL4_TruncatedMessage''),
     (8, ''seL4_DeleteFirst''),
     (9, ''seL4_RevokeFirst''),
     (10, ''seL4_NotEnoughMemory'')]"

definition sel4_strerror :: "64 word \<Rightarrow> string" where
  "sel4_strerror err = switch_string sel4_strerror_table ''<invalid seL4 error>'' err"

subsection \<open>Fault decoder tables\<close>

definition riscv_fsr_cheri_type_table :: "(64 word \<times> string) list" where
  "riscv_fsr_cheri_type_table =
    [(0, ''CHERI instruction fetch fault''),
     (1, ''CHERI data fault due to load, store or AMO''),
     (2, ''CHERI jump or branch fault'')]"

definition riscv_fsr_cheri_type_to_string :: "64 word \<Rightarrow> string" where
  "riscv_fsr_cheri_type_to_string cheri_type =
     switch_string riscv_fsr_cheri_type_table ''Unexpected CHERI fault type'' cheri_type"

definition riscv_fsr_cheri_cause_table :: "(64 word \<times> string) list" where
  "riscv_fsr_cheri_cause_table =
    [(0, ''Tag violation''),
     (1, ''Seal violation''),
     (2, ''Permission violation''),
     (3, ''Invalid address violation''),
     (4, ''Bounds violation'')]"

definition riscv_fsr_table :: "(64 word \<times> string) list" where
  "riscv_fsr_table =
    [(0, ''Instruction address misaligned''),
     (1, ''Instruction access fault''),
     (2, ''Illegal instruction''),
     (3, ''Breakpoint''),
     (4, ''Load address misaligned''),
     (5, ''Load access fault''),
     (6, ''Store/AMO address misaligned''),
     (7, ''Store/AMO access fault''),
     (8, ''Environment call from U-mode''),
     (9, ''Environment call from S-mode''),
     (12, ''Instruction page fault''),
     (13, ''Load page fault''),
     (15, ''Store/AMO page fault''),
     (18, ''Software check''),
     (19, ''Hardware error'')]"

text \<open>
  \<^verbatim>\<open>riscv_fsr_to_string\<close>; \<open>have_cheri\<close> is the build option \<^verbatim>\<open>CONFIG_HAVE_CHERI\<close>, under
  which bit 11 of the status word selects the table of CHERI causes, indexed by the low
  four bits.
\<close>

definition riscv_fsr_to_string :: "bool \<Rightarrow> 64 word \<Rightarrow> string" where
  "riscv_fsr_to_string have_cheri fsr =
     (if have_cheri \<and> (drop_bit 11 fsr) AND 1 \<noteq> 0
      then switch_string riscv_fsr_cheri_cause_table ''Unexpected CHERI fault'' (fsr AND 0xf)
      else switch_string riscv_fsr_table ''<Unexpected FSR>'' fsr)"

definition ec_table :: "(64 word \<times> string) list" where
  "ec_table =
    [(0, ''Unknown reason''),
     (1, ''Trapped WFI or WFE instruction execution''),
     (3, ''Trapped MCR or MRC access with (coproc==0b1111) this is not reported using EC 0b000000''),
     (4, ''Trapped MCRR or MRRC access with (coproc==0b1111) this is not reported using EC 0b000000''),
     (5, ''Trapped MCR or MRC access with (coproc==0b1110)''),
     (6, ''Trapped LDC or STC access''),
     (7, ''Access to SVC, Advanced SIMD or floating-point functionality trapped''),
     (12, ''Trapped MRRC access with (coproc==0b1110)''),
     (13, ''Branch Target Exception''),
     (17, ''SVC instruction execution in AArch32 state''),
     (21, ''SVC instruction execution in AArch64 state''),
     (24, ''Trapped MSR, MRS or System instruction exuection in AArch64 state, this is not reported using EC 0xb000000, 0b000001 or 0b000111''),
     (25, ''Access to SVE functionality trapped''),
     (28, ''Exception from a Pointer Authentication instruction authentication failure''),
     (32, ''Instruction Abort from a lower Exception level''),
     (33, ''Instruction Abort taken without a change in Exception level''),
     (34, ''PC alignment fault exception''),
     (36, ''Data Abort from a lower Exception level''),
     (37, ''Data Abort taken without a change in Exception level''),
     (38, ''SP alignment faultr exception''),
     (40, ''Trapped floating-point exception taken from AArch32 state''),
     (44, ''Trapped floating-point exception taken from AArch64 state''),
     (47, ''SError interrupt''),
     (48, ''Breakpoint exception from a lower Exception level''),
     (49, ''Breakpoint exception taken without a change in Exception level''),
     (50, ''Software Step exception from a lower Exception level''),
     (51, ''Software Step exception taken without a change in Exception level''),
     (52, ''Watchpoint exception from a lower Exception level''),
     (53, ''Watchpoint exception taken without a change in Exception level''),
     (56, ''BKPT instruction execution in AArch32 state''),
     (60, ''BRK instruction execution in AArch64 state'')]"

definition ec_to_string :: "64 word \<Rightarrow> string" where
  "ec_to_string ec = switch_string ec_table ''<invalid EC>'' ec"

definition data_abort_dfsc_table :: "(64 word \<times> string) list" where
  "data_abort_dfsc_table =
    [(0x00, ''address size fault, level 0''),
     (0x01, ''address size fault, level 1''),
     (0x02, ''address size fault, level 2''),
     (0x03, ''address size fault, level 3''),
     (0x04, ''translation fault, level 0''),
     (0x05, ''translation fault, level 1''),
     (0x06, ''translation fault, level 2''),
     (0x07, ''translation fault, level 3''),
     (0x09, ''access flag fault, level 1''),
     (0x0a, ''access flag fault, level 2''),
     (0x0b, ''access flag fault, level 3''),
     (0x0d, ''permission fault, level 1''),
     (0x0e, ''permission fault, level 2''),
     (0x0f, ''permission fault, level 3''),
     (0x10, ''synchronuos external abort''),
     (0x11, ''synchronous tag check fault''),
     (0x14, ''synchronous external abort, level 0''),
     (0x15, ''synchronous external abort, level 1''),
     (0x16, ''synchronous external abort, level 2''),
     (0x17, ''synchronous external abort, level 3''),
     (0x18, ''syncrhonous partity or ECC error''),
     (0x1c, ''syncrhonous partity or ECC error, level 0''),
     (0x1d, ''syncrhonous partity or ECC error, level 1''),
     (0x1e, ''syncrhonous partity or ECC error, level 2''),
     (0x1f, ''syncrhonous partity or ECC error, level 3''),
     (0x21, ''alignment fault''),
     (0x30, ''tlb conflict abort''),
     (0x31, ''unsupported atomic hardware update fault'')]"

definition data_abort_dfsc_to_string :: "64 word \<Rightarrow> string" where
  "data_abort_dfsc_to_string dfsc = switch_string data_abort_dfsc_table ''<unexpected DFSC>'' dfsc"

definition usban_code_table :: "(64 word \<times> string) list" where
  "usban_code_table =
    [(0, ''add overflow''),
     (1, ''builtin unreachable''),
     (2, ''control-flow-integrity check fail''),
     (3, ''division remainder overflow''),
     (4, ''dynamic type cache miss''),
     (5, ''float case overflow''),
     (6, ''function type mismatch''),
     (7, ''implicit conversion''),
     (8, ''invalid builtin''),
     (9, ''invalid objc cast''),
     (10, ''load invalid value''),
     (11, ''missing return''),
     (12, ''multiplication overflow''),
     (13, ''negate overflow''),
     (14, ''nullability argument''),
     (15, ''nullability return''),
     (16, ''non-null argument''),
     (17, ''non-null return''),
     (18, ''out of bounds access''),
     (19, ''pointer overflow''),
     (20, ''shift out of bounds''),
     (21, ''subtraction overflow''),
     (22, ''type mismatch''),
     (23, ''alignment assumption''),
     (24, ''variable-length-array bound not positive'')]"

definition usban_code_to_string :: "64 word \<Rightarrow> string" where
  "usban_code_to_string code = switch_string usban_code_table ''unknown reason'' code"

section \<open>The invocation executor\<close>

subsection \<open>The message tag and the transport\<close>

text \<open>
  The accessors of \<^verbatim>\<open>seL4_MessageInfo_t\<close> belong to libsel4, which is not part of the
  repository. The monitor only applies them to a tag word, so they are a parameter of
  the model and every theorem holds for any choice of them.
\<close>

record msginfo_abi =
  get_label :: "64 word \<Rightarrow> 64 word"
  get_capsUnwrapped :: "64 word \<Rightarrow> 64 word"
  get_extraCaps :: "64 word \<Rightarrow> 64 word"
  get_length :: "64 word \<Rightarrow> 64 word"

text \<open>
  The layout of the tag word is missing from the sources, and the specification only says
  that the capability count and the message-word count are both derived from the header's
  tag field. This instance is libsel4's 64-bit layout (label in bits 12 and up,
  capsUnwrapped in bits 9 to 11, extraCaps in bits 7 and 8, length in bits 0 to 6); it is
  used to run the model on concrete records only.
\<close>

definition sel4_msginfo :: msginfo_abi where
  "sel4_msginfo =
     \<lparr> get_label = (\<lambda>w. drop_bit 12 w),
       get_capsUnwrapped = (\<lambda>w. drop_bit 9 (w AND 0xe00)),
       get_extraCaps = (\<lambda>w. drop_bit 7 (w AND 0x180)),
       get_length = (\<lambda>w. w AND 0x7f) \<rparr>"

text \<open>
  The transport: the capability slots and message words of the IPC buffer, written by
  \<^verbatim>\<open>seL4_SetCap\<close> and \<^verbatim>\<open>seL4_SetMR\<close>, and the four locals \<^verbatim>\<open>mr0\<close> to \<^verbatim>\<open>mr3\<close> that
  \<^verbatim>\<open>seL4_CallWithMRs\<close> receives by address. The source does not compare a slot index with
  the capacity of the IPC buffer, so the slots are indexed by every \<^verbatim>\<open>unsigned\<close> value.
\<close>

record transport =
  caps :: "32 word \<Rightarrow> 64 word"
  msg :: "32 word \<Rightarrow> 64 word"
  mr0 :: "64 word"
  mr1 :: "64 word"
  mr2 :: "64 word"
  mr3 :: "64 word"

definition seL4_SetCap :: "32 word \<Rightarrow> 64 word \<Rightarrow> transport \<Rightarrow> transport" where
  "seL4_SetCap j cap t = t\<lparr>caps := (caps t)(j := cap)\<rparr>"

definition seL4_SetMR :: "32 word \<Rightarrow> 64 word \<Rightarrow> transport \<Rightarrow> transport" where
  "seL4_SetMR j mr t = t\<lparr>msg := (msg t)(j := mr)\<rparr>"

text \<open>
  Message word \<open>j\<close> as a call carries it: the first four are the locals latched by the
  \<^verbatim>\<open>switch (j)\<close>, the others are in the IPC buffer.
\<close>

definition message_word :: "transport \<Rightarrow> 32 word \<Rightarrow> 64 word" where
  "message_word t j =
     (if j = 0 then mr0 t else if j = 1 then mr1 t else if j = 2 then mr2 t
      else if j = 3 then mr3 t else msg t j)"

text \<open>
  One \<^verbatim>\<open>seL4_CallWithMRs\<close>: the target, the tag and the transport as loaded. The kernel is
  any function from its own state and the call to the returned tag, the transport after
  the call (the reply overwrites the four locals and may write the IPC buffer) and its new
  state.
\<close>

record kcall =
  call_service :: "64 word"
  call_tag :: "64 word"
  call_xport :: transport

type_synonym 'k kernel = "'k \<Rightarrow> kcall \<Rightarrow> (64 word \<times> transport) \<times> 'k"

text \<open>
  The state threaded through the executor: the transport, the kernel, the calls issued so
  far (oldest first) and the console. The four locals have no initial value in the
  source; at the entry of \<^verbatim>\<open>perform_invocation\<close> they hold whatever the state holds, and
  nothing proved below depends on it.
\<close>

record 'k mstate =
  xport :: transport
  kstate :: 'k
  calls :: "kcall list"
  console :: string

definition fail :: "string \<Rightarrow> 'k mstate \<Rightarrow> 'a outcome \<times> 'k mstate" where
  "fail s st = (Halted, st\<lparr>console := fail_output s (console st)\<rparr>)"

subsection \<open>\<^verbatim>\<open>perform_invocation\<close>\<close>

text \<open>
  The invocation data is reached through a \<^verbatim>\<open>seL4_Word *\<close> and indexed by \<^verbatim>\<open>unsigned\<close>
  values: it is the memory behind that pointer, a function of the index.

  The locals computed before the loop. When \<^verbatim>\<open>iterations\<close> is 1 the source leaves
  \<^verbatim>\<open>service_incr\<close>, \<^verbatim>\<open>cap_incr_offset\<close> and \<^verbatim>\<open>mr_incr_offset\<close> unassigned and never reads
  them (they are read when \<^verbatim>\<open>i > 0\<close> only); the model gives them 0 there.
\<close>

record invocation =
  tag :: "64 word"
  iterations :: "64 word"
  service :: "64 word"
  service_incr :: "64 word"
  cap_offset :: "32 word"
  cap_incr_offset :: "32 word"
  cap_count :: "32 word"
  mr_offset :: "32 word"
  mr_incr_offset :: "32 word"
  mr_count :: "32 word"
  next_offset :: "32 word"

definition decode_invocation ::
  "msginfo_abi \<Rightarrow> (32 word \<Rightarrow> 64 word) \<Rightarrow> 32 word \<Rightarrow> invocation" where
  "decode_invocation abi invocation_data offset =
     (let cmd = invocation_data offset;
          iterations = drop_bit 32 cmd + 1;
          tag0 = cmd AND 0xffffffff;
          service = invocation_data (offset + 1);
          cap_count = ucast (get_extraCaps abi tag0);
          mr_count = ucast (get_length abi tag0);
          cap_offset = offset + 2;
          mr_offset = cap_offset + cap_count
      in if 1 < iterations
         then \<lparr> tag = tag0, iterations = iterations, service = service,
                service_incr = invocation_data (mr_offset + mr_count),
                cap_offset = cap_offset,
                cap_incr_offset = mr_offset + mr_count + 1,
                cap_count = cap_count,
                mr_offset = mr_offset,
                mr_incr_offset = mr_offset + mr_count + 1 + cap_count,
                mr_count = mr_count,
                next_offset = mr_offset + mr_count + 1 + cap_count + mr_count \<rparr>
         else \<lparr> tag = tag0, iterations = iterations, service = service,
                service_incr = 0,
                cap_offset = cap_offset,
                cap_incr_offset = 0,
                cap_count = cap_count,
                mr_offset = mr_offset,
                mr_incr_offset = 0,
                mr_count = mr_count,
                next_offset = mr_offset + mr_count \<rparr>)"

text \<open>The body of the loop over the capability slots, at \<^verbatim>\<open>j = n\<close> of iteration \<open>i\<close>.\<close>

definition set_cap_step ::
  "(32 word \<Rightarrow> 64 word) \<Rightarrow> invocation \<Rightarrow> 32 word \<Rightarrow> nat \<Rightarrow> transport \<Rightarrow> transport" where
  "set_cap_step invocation_data rc i n t =
     (let j = of_nat n;
          cap = invocation_data (cap_offset rc + j);
          cap = (if 0 < i then cap + invocation_data (cap_incr_offset rc + j) * ucast i else cap)
      in seL4_SetCap j cap t)"

text \<open>The body of the loop over the message words, with its \<^verbatim>\<open>switch (j)\<close>.\<close>

definition set_mr_step ::
  "(32 word \<Rightarrow> 64 word) \<Rightarrow> invocation \<Rightarrow> 32 word \<Rightarrow> nat \<Rightarrow> transport \<Rightarrow> transport" where
  "set_mr_step invocation_data rc i n t =
     (let j = of_nat n;
          mr = invocation_data (mr_offset rc + j);
          mr = (if 0 < i then mr + invocation_data (mr_incr_offset rc + j) * ucast i else mr)
      in if j = 0 then t\<lparr>mr0 := mr\<rparr>
         else if j = 1 then t\<lparr>mr1 := mr\<rparr>
         else if j = 2 then t\<lparr>mr2 := mr\<rparr>
         else if j = 3 then t\<lparr>mr3 := mr\<rparr>
         else seL4_SetMR j mr t)"

text \<open>
  Both inner loops count \<^verbatim>\<open>j\<close> from 0 up to a bound of the same 32-bit type, so \<^verbatim>\<open>j\<close>
  takes the values \<open>0, \<dots>, count - 1\<close> in order and the loops end.
\<close>

definition load_transport ::
  "(32 word \<Rightarrow> 64 word) \<Rightarrow> invocation \<Rightarrow> 32 word \<Rightarrow> transport \<Rightarrow> transport" where
  "load_transport invocation_data rc i t =
     fold (set_mr_step invocation_data rc i) [0..<unat (mr_count rc)]
       (fold (set_cap_step invocation_data rc i) [0..<unat (cap_count rc)] t)"

text \<open>
  \<^verbatim>\<open>result = (seL4_Error) seL4_MessageInfo_get_label(out_tag);\<close> The label is a
  \<^verbatim>\<open>seL4_Word\<close>; the cast to the 32-bit enumeration keeps its low 32 bits.
\<close>

definition reply_result :: "msginfo_abi \<Rightarrow> 64 word \<Rightarrow> seL4_Error" where
  "reply_result abi out_tag = ucast (get_label abi out_tag)"

text \<open>
  The lines printed for a failed call. \<^verbatim>\<open>puthex64\<close> takes a \<^verbatim>\<open>uint64_t\<close> and
  \<^verbatim>\<open>sel4_strerror\<close> a \<^verbatim>\<open>seL4_Word\<close>: \<^verbatim>\<open>result\<close> is widened for both.
\<close>

definition invocation_error_output :: "seL4_Error \<Rightarrow> 32 word \<Rightarrow> 32 word \<Rightarrow> string \<Rightarrow> string" where
  "invocation_error_output result idx i con =
     puts [CHR 0x0A] (puthex32 i (puts ''.'' (puthex32 idx (puts ''  invocation idx: ''
       (puts (sel4_strerror (ucast result)) (puts '' ''
         (puthex64 (ucast result) (puts ''ERROR: '' con))))))))"

text \<open>
  One iteration of the outer loop: the target and the two inner loops make the call
  (\<open>iteration_call\<close>); then the call itself and the test of \<^verbatim>\<open>result\<close>.
\<close>

definition iteration_call ::
  "(32 word \<Rightarrow> 64 word) \<Rightarrow> invocation \<Rightarrow> 32 word \<Rightarrow> transport \<Rightarrow> kcall" where
  "iteration_call invocation_data rc i t =
     \<lparr> call_service = (if 0 < i then service rc + service_incr rc * ucast i else service rc),
       call_tag = tag rc,
       call_xport = load_transport invocation_data rc i t \<rparr>"

definition invocation_iteration ::
  "msginfo_abi \<Rightarrow> 'k kernel \<Rightarrow> (32 word \<Rightarrow> 64 word) \<Rightarrow> invocation \<Rightarrow> 32 word \<Rightarrow> 32 word
     \<Rightarrow> 'k mstate \<Rightarrow> unit outcome \<times> 'k mstate" where
  "invocation_iteration abi kern invocation_data rc idx i st =
     (let c = iteration_call invocation_data rc i (xport st);
          ((out_tag, t'), k') = kern (kstate st) c;
          st' = st\<lparr>xport := t', kstate := k', calls := calls st @ [c]\<rparr>;
          result = reply_result abi out_tag
      in if result \<noteq> seL4_NoError
         then fail ''invocation error''
                (st'\<lparr>console := invocation_error_output result idx i (console st')\<rparr>)
         else (Returned (), st'))"

text \<open>
  The outer loop, \<^verbatim>\<open>for (unsigned i = 0; i < iterations; i++)\<close>: \<^verbatim>\<open>i\<close> has 32 bits and
  \<^verbatim>\<open>iterations\<close> 64, and the comparison is made at 64 bits. A header whose high half is
  \<^verbatim>\<open>0xffffffff\<close> gives \<^verbatim>\<open>iterations = 2^32\<close>, which \<^verbatim>\<open>i\<close> never reaches: the loop need not
  end, and \<open>None\<close> is the run that does not.
\<close>

partial_function (option) invocation_loop ::
  "msginfo_abi \<Rightarrow> 'k kernel \<Rightarrow> (32 word \<Rightarrow> 64 word) \<Rightarrow> invocation \<Rightarrow> 32 word \<Rightarrow> 32 word
     \<Rightarrow> 'k mstate \<Rightarrow> (unit outcome \<times> 'k mstate) option" where
  "invocation_loop abi kern invocation_data rc idx i st =
     (if ucast i < iterations rc
      then (case invocation_iteration abi kern invocation_data rc idx i st of
              (Halted, st') \<Rightarrow> Some (Halted, st')
            | (Returned u, st') \<Rightarrow> invocation_loop abi kern invocation_data rc idx (i + 1) st')
      else Some (Returned (), st))"

declare invocation_loop.simps [code]

definition perform_invocation ::
  "msginfo_abi \<Rightarrow> 'k kernel \<Rightarrow> (32 word \<Rightarrow> 64 word) \<Rightarrow> 32 word \<Rightarrow> 32 word
     \<Rightarrow> 'k mstate \<Rightarrow> (32 word outcome \<times> 'k mstate) option" where
  "perform_invocation abi kern invocation_data offset idx st =
     (let rc = decode_invocation abi invocation_data offset
      in if get_capsUnwrapped abi (tag rc) \<noteq> 0
         then Some (fail ''kernel invocation should never have unwrapped caps'' st)
         else (case invocation_loop abi kern invocation_data rc idx 0 st of
                 None \<Rightarrow> None
               | Some (Halted, st') \<Rightarrow> Some (Halted, st')
               | Some (Returned u, st') \<Rightarrow> Some (Returned (next_offset rc), st')))"

text \<open>
  The first \<open>n\<close> rounds of the outer loop from \<^verbatim>\<open>i\<close>, unrolled: the body of the loop \<open>n\<close>
  times, with \<^verbatim>\<open>i++\<close> after each and without the test \<^verbatim>\<open>i < iterations\<close>, stopping at the
  first round that halts. The loop makes exactly these rounds as long as the test holds for
  them (\<open>invocation_loop_unroll\<close> below). They say which state the loop is in, and which
  calls it has issued, when it reaches a given iteration, also in a run that does not end.
\<close>

primrec first_iterations ::
  "msginfo_abi \<Rightarrow> 'k kernel \<Rightarrow> (32 word \<Rightarrow> 64 word) \<Rightarrow> invocation \<Rightarrow> 32 word \<Rightarrow> nat \<Rightarrow> 32 word
     \<Rightarrow> 'k mstate \<Rightarrow> unit outcome \<times> 'k mstate" where
  "first_iterations abi kern invocation_data rc idx 0 i st = (Returned (), st)"
| "first_iterations abi kern invocation_data rc idx (Suc n) i st =
     (case invocation_iteration abi kern invocation_data rc idx i st of
        (Halted, st') \<Rightarrow> (Halted, st')
      | (Returned u, st') \<Rightarrow> first_iterations abi kern invocation_data rc idx n (i + 1) st')"

subsection \<open>The kernel's answers to the calls of a run\<close>

text \<open>
  The kernel changes state at a call and nowhere else. The tags it returns to the calls
  \<open>cs\<close>, made in that order from its state \<open>k\<close>, and the state it is in after them, are
  therefore functions of the kernel and the calls alone. Every call of a run returns
  success when each of these tags has the result \<^verbatim>\<open>seL4_NoError\<close>, read as the executor
  reads it.
\<close>

primrec kernel_replies :: "'k kernel \<Rightarrow> 'k \<Rightarrow> kcall list \<Rightarrow> 64 word list" where
  "kernel_replies kern k [] = []"
| "kernel_replies kern k (c # cs) = fst (fst (kern k c)) # kernel_replies kern (snd (kern k c)) cs"

primrec kernel_after :: "'k kernel \<Rightarrow> 'k \<Rightarrow> kcall list \<Rightarrow> 'k" where
  "kernel_after kern k [] = k"
| "kernel_after kern k (c # cs) = kernel_after kern (snd (kern k c)) cs"

definition calls_succeed :: "msginfo_abi \<Rightarrow> 'k kernel \<Rightarrow> 'k \<Rightarrow> kcall list \<Rightarrow> bool" where
  "calls_succeed abi kern k cs \<longleftrightarrow>
     list_all (\<lambda>out_tag. reply_result abi out_tag = seL4_NoError) (kernel_replies kern k cs)"

subsection \<open>The script runner\<close>

text \<open>
  The loop of \<^verbatim>\<open>main\<close>, \<^verbatim>\<open>for (unsigned idx = 0; idx < count; idx++)
  offset = perform_invocation(data, offset, idx);\<close>, from any \<^verbatim>\<open>idx\<close> and \<^verbatim>\<open>offset\<close>. The
  count is a \<^verbatim>\<open>seL4_Word\<close>. A call that halts ends the run.
\<close>

partial_function (option) run_invocations ::
  "msginfo_abi \<Rightarrow> 'k kernel \<Rightarrow> (32 word \<Rightarrow> 64 word) \<Rightarrow> 64 word \<Rightarrow> 32 word \<Rightarrow> 32 word
     \<Rightarrow> 'k mstate \<Rightarrow> (32 word outcome \<times> 'k mstate) option" where
  "run_invocations abi kern invocation_data count idx offset st =
     (if ucast idx < count
      then (case perform_invocation abi kern invocation_data offset idx st of
              None \<Rightarrow> None
            | Some (Halted, st') \<Rightarrow> Some (Halted, st')
            | Some (Returned offset', st') \<Rightarrow>
                run_invocations abi kern invocation_data count (idx + 1) offset' st')
      else Some (Returned offset, st))"

declare run_invocations.simps [code]

definition run_script ::
  "msginfo_abi \<Rightarrow> 'k kernel \<Rightarrow> (32 word \<Rightarrow> 64 word) \<Rightarrow> 64 word
     \<Rightarrow> 'k mstate \<Rightarrow> (32 word outcome \<times> 'k mstate) option" where
  "run_script abi kern invocation_data count st =
     run_invocations abi kern invocation_data count 0 0 st"

text \<open>
  The record format in the words of the specification: a header, a target, the capability
  words and the message words, and for more than one iteration a stride for the target and
  one for each capability and message word. The header gives the tag in its low half and
  the counts through the tag; the iteration count that the executor takes from it is its
  high half plus one (\<^verbatim>\<open>(cmd >> 32) + 1\<close>). \<open>record_words\<close> is the length of the record
  whose header is \<open>cmd\<close>, \<open>record_start\<close> the offset of record \<open>k\<close> of a stream that starts
  at offset 0.
\<close>

definition header_iterations :: "64 word \<Rightarrow> nat" where
  "header_iterations cmd = unat (drop_bit 32 cmd) + 1"

definition header_tag :: "64 word \<Rightarrow> 64 word" where
  "header_tag cmd = cmd AND 0xffffffff"

definition header_cap_count :: "msginfo_abi \<Rightarrow> 64 word \<Rightarrow> nat" where
  "header_cap_count abi cmd = unat (ucast (get_extraCaps abi (header_tag cmd)) :: 32 word)"

definition header_mr_count :: "msginfo_abi \<Rightarrow> 64 word \<Rightarrow> nat" where
  "header_mr_count abi cmd = unat (ucast (get_length abi (header_tag cmd)) :: 32 word)"

definition record_words :: "msginfo_abi \<Rightarrow> 64 word \<Rightarrow> nat" where
  "record_words abi cmd =
     (if header_iterations cmd = 1
      then 2 + header_cap_count abi cmd + header_mr_count abi cmd
      else 2 + header_cap_count abi cmd + header_mr_count abi cmd
             + (1 + header_cap_count abi cmd + header_mr_count abi cmd))"

text \<open>
  The words of the record at offset \<open>off\<close>, by their place in that format: the target
  and its stride, capability word \<open>j\<close> and its stride, message word \<open>j\<close> and its
  stride.
\<close>

definition record_target :: "(32 word \<Rightarrow> 64 word) \<Rightarrow> 32 word \<Rightarrow> 64 word" where
  "record_target invocation_data off = invocation_data (off + 1)"

definition record_cap :: "(32 word \<Rightarrow> 64 word) \<Rightarrow> 32 word \<Rightarrow> nat \<Rightarrow> 64 word" where
  "record_cap invocation_data off j = invocation_data (off + 2 + of_nat j)"

definition record_mr :: "msginfo_abi \<Rightarrow> (32 word \<Rightarrow> 64 word) \<Rightarrow> 32 word \<Rightarrow> nat \<Rightarrow> 64 word" where
  "record_mr abi invocation_data off j =
     invocation_data (off + 2 + of_nat (header_cap_count abi (invocation_data off)) + of_nat j)"

definition record_target_stride :: "msginfo_abi \<Rightarrow> (32 word \<Rightarrow> 64 word) \<Rightarrow> 32 word \<Rightarrow> 64 word" where
  "record_target_stride abi invocation_data off =
     invocation_data (off + 2 + of_nat (header_cap_count abi (invocation_data off))
                        + of_nat (header_mr_count abi (invocation_data off)))"

definition record_cap_stride ::
  "msginfo_abi \<Rightarrow> (32 word \<Rightarrow> 64 word) \<Rightarrow> 32 word \<Rightarrow> nat \<Rightarrow> 64 word" where
  "record_cap_stride abi invocation_data off j =
     invocation_data (off + 2 + of_nat (header_cap_count abi (invocation_data off))
                        + of_nat (header_mr_count abi (invocation_data off)) + 1 + of_nat j)"

definition record_mr_stride ::
  "msginfo_abi \<Rightarrow> (32 word \<Rightarrow> 64 word) \<Rightarrow> 32 word \<Rightarrow> nat \<Rightarrow> 64 word" where
  "record_mr_stride abi invocation_data off j =
     invocation_data (off + 2 + of_nat (header_cap_count abi (invocation_data off))
                        + of_nat (header_mr_count abi (invocation_data off)) + 1
                        + of_nat (header_cap_count abi (invocation_data off)) + of_nat j)"

primrec record_start :: "msginfo_abi \<Rightarrow> (32 word \<Rightarrow> 64 word) \<Rightarrow> nat \<Rightarrow> nat" where
  "record_start abi invocation_data 0 = 0"
| "record_start abi invocation_data (Suc k) =
     record_start abi invocation_data k
       + record_words abi (invocation_data (of_nat (record_start abi invocation_data k)))"

text \<open>The header of record \<open>k\<close> of the stream.\<close>

definition record_header :: "msginfo_abi \<Rightarrow> (32 word \<Rightarrow> 64 word) \<Rightarrow> nat \<Rightarrow> 64 word" where
  "record_header abi invocation_data k = invocation_data (of_nat (record_start abi invocation_data k))"

section \<open>Arrays of fixed size\<close>

text \<open>
  The global arrays of the monitor have a size fixed at build time. An array is its
  contents by index together with that size. C gives no meaning to a read at an index
  that is not below the size: such a read is reported as \<open>Out_Of_Bounds\<close>.
\<close>

datatype 'a access = In_Bounds 'a | Out_Of_Bounds

definition array_read :: "nat \<Rightarrow> (nat \<Rightarrow> 'a) \<Rightarrow> nat \<Rightarrow> 'a access" where
  "array_read n arr i = (if i < n then In_Bounds (arr i) else Out_Of_Bounds)"

section \<open>The untyped-manifest checker\<close>

text \<open>
  \<^verbatim>\<open>struct untyped_info\<close> holds \<^verbatim>\<open>MAX_UNTYPED_REGIONS\<close> regions of three \<^verbatim>\<open>uintptr_t\<close>
  fields.
\<close>

record region =
  paddr :: "64 word"
  size_bits :: "64 word"
  is_device :: "64 word"

record untyped_info =
  cap_start :: "64 word"
  cap_end :: "64 word"
  regions :: "nat \<Rightarrow> region"

text \<open>
  The part of \<^verbatim>\<open>seL4_BootInfo\<close> that the checker reads. The type is libsel4's and is not
  part of this repository: the slot range \<^verbatim>\<open>untyped\<close> is two words, an entry of
  \<^verbatim>\<open>untypedList\<close> has a word for the address and a byte each for \<^verbatim>\<open>sizeBits\<close> and
  \<^verbatim>\<open>isDevice\<close>, and the length of the list is a constant of the kernel configuration,
  \<open>untypedList_size\<close> here.
\<close>

record seL4_UntypedDesc =
  ut_paddr :: "64 word"
  ut_sizeBits :: "8 word"
  ut_isDevice :: "8 word"

record seL4_BootInfo =
  untyped_start :: "64 word"
  untyped_end :: "64 word"
  untypedList :: "nat \<Rightarrow> seL4_UntypedDesc"
  untypedList_size :: nat

text \<open>
  The loop \<^verbatim>\<open>for (unsigned i = 0; i < untyped_info.cap_end - untyped_info.cap_start; i++)\<close>,
  from any \<^verbatim>\<open>i\<close>. The bound is a 64-bit difference. The bytes of the kernel's entry are
  widened for the comparisons. An index outside either array ends the check with
  \<open>Out_Of_Bounds\<close>: the comparison would read past the array. The function says what
  the checker returns; its messages are left out.
\<close>

function check_regions :: "untyped_info \<Rightarrow> seL4_BootInfo \<Rightarrow> 32 word \<Rightarrow> bool access" where
  "check_regions ui bi i =
     (if ucast i < cap_end ui - cap_start ui
      then (case array_read MAX_UNTYPED_REGIONS (regions ui) (unat i) of
              Out_Of_Bounds \<Rightarrow> Out_Of_Bounds
            | In_Bounds r \<Rightarrow>
               (case array_read (untypedList_size bi) (untypedList bi) (unat i) of
                  Out_Of_Bounds \<Rightarrow> Out_Of_Bounds
                | In_Bounds d \<Rightarrow>
                    if paddr r \<noteq> ut_paddr d then In_Bounds False
                    else if size_bits r \<noteq> ucast (ut_sizeBits d) then In_Bounds False
                    else if is_device r \<noteq> ucast (ut_isDevice d) then In_Bounds False
                    else check_regions ui bi (i + 1)))
      else In_Bounds True)"
  by pat_completeness auto
termination
proof (relation "measure (\<lambda>(ui, bi, i). MAX_UNTYPED_REGIONS - unat i)")
  show "wf (measure (\<lambda>(ui, bi, i). MAX_UNTYPED_REGIONS - unat i))" by simp
next
  fix ui :: untyped_info and bi :: seL4_BootInfo and i :: "32 word" and r d
  assume "array_read MAX_UNTYPED_REGIONS (regions ui) (unat i) = In_Bounds r"
  then have lt: "unat i < 256"
    by (simp add: array_read_def MAX_UNTYPED_REGIONS_def split: if_splits)
  then have "unat (i + 1) = unat i + 1"
    by (simp add: unat_word_ariths)
  with lt show "((ui, bi, i + 1), (ui, bi, i)) \<in> measure (\<lambda>(ui, bi, i). MAX_UNTYPED_REGIONS - unat i)"
    by (simp add: MAX_UNTYPED_REGIONS_def)
qed

declare check_regions.simps [simp del]

definition check_untypeds_match :: "untyped_info \<Rightarrow> seL4_BootInfo \<Rightarrow> bool access" where
  "check_untypeds_match ui bi =
     (if cap_start ui \<noteq> untyped_start bi then In_Bounds False
      else if cap_end ui \<noteq> untyped_end bi then In_Bounds False
      else check_regions ui bi 0)"

text \<open>
  The verdict in the words of the specification: region \<open>i\<close> of the embedded manifest
  differs from the kernel's, and the two manifests match.
\<close>

definition region_differs :: "untyped_info \<Rightarrow> seL4_BootInfo \<Rightarrow> nat \<Rightarrow> bool" where
  "region_differs ui bi i \<longleftrightarrow>
     paddr (regions ui i) \<noteq> ut_paddr (untypedList bi i)
     \<or> size_bits (regions ui i) \<noteq> ucast (ut_sizeBits (untypedList bi i))
     \<or> is_device (regions ui i) \<noteq> ucast (ut_isDevice (untypedList bi i))"

definition manifests_match :: "untyped_info \<Rightarrow> seL4_BootInfo \<Rightarrow> bool" where
  "manifests_match ui bi \<longleftrightarrow>
     cap_start ui = untyped_start bi \<and> cap_end ui = untyped_end bi
     \<and> (\<forall>i < unat (cap_end ui - cap_start ui). \<not> region_differs ui bi i)"

section \<open>The fault-monitor loop\<close>

text \<open>
  The component registry: the global arrays indexed by badge, each of \<^verbatim>\<open>MAX_PDS\<close>
  entries. A name is the characters of its slot before the first NUL, so the slot is empty
  (\<^verbatim>\<open>pd_names[badge][0] == 0\<close>) when the name is the empty string.
\<close>

record registry =
  pd_names :: "nat \<Rightarrow> string"
  pd_tcbs :: "nat \<Rightarrow> 64 word"
  scheduling_contexts :: "nat \<Rightarrow> 64 word"
  notification_caps :: "nat \<Rightarrow> 64 word"
  pd_stack_addrs :: "nat \<Rightarrow> 64 word"

text \<open>The label of the null fault is libsel4's \<^verbatim>\<open>seL4_Fault_NullFault = 0\<close>.\<close>

definition seL4_Fault_NullFault :: "64 word" where
  "seL4_Fault_NullFault = 0"

text \<open>
  What one round of the loop receives: the tag and the badge that \<^verbatim>\<open>seL4_Recv\<close> delivers,
  and the kernel's answers to the calls the round may make (the answer to the unbind call
  is overwritten by the answer to the bind call before it is read). The text that
  \<^verbatim>\<open>print_tcb_registers\<close> and the \<^verbatim>\<open>switch (label)\<close> print for a fault is \<open>fault_report\<close>:
  that code renders the registers and the message words and has no path to \<^verbatim>\<open>fail\<close>.

  \<open>stray_read\<close> is what a read of \<^verbatim>\<open>pd_tcbs[badge]\<close> outside the array yields: the word
  that lies there, or nothing when the read traps (as a capability bounds fault does under
  CHERI).
\<close>

record fault_message =
  recv_tag :: "64 word"
  recv_badge :: "64 word"
  stray_read :: "64 word option"
  unbind_error :: "64 word"
  bind_error :: "64 word"
  read_registers_error :: "64 word"
  fault_report :: string

datatype syscall =
  SchedContext_UnbindObject "64 word" "64 word"
| SchedContext_Bind "64 word" "64 word"
| TCB_ReadRegisters "64 word"

text \<open>
  A round ends back at the blocking receive (\<^verbatim>\<open>continue\<close>, or the end of the loop body),
  in \<^verbatim>\<open>fail\<close>, or in the trap of a read outside an array.
\<close>

datatype monitor_next = Recv_Again | Fail_Halt | Bounds_Trap

record monitor_trace =
  syscalls :: "syscall list"
  printed :: string

definition monitor_fail :: "string \<Rightarrow> monitor_trace \<Rightarrow> monitor_next \<times> monitor_trace" where
  "monitor_fail s tr = (Fail_Halt, tr\<lparr>printed := fail_output s (printed tr)\<rparr>)"

text \<open>
  The body of \<^verbatim>\<open>for (;;)\<close> in \<^verbatim>\<open>monitor\<close> after \<^verbatim>\<open>tcb_cap\<close> has been read. Every array
  access here is inside a test \<^verbatim>\<open>badge < MAX_PDS\<close>.
\<close>

definition monitor_dispatch ::
  "msginfo_abi \<Rightarrow> registry \<Rightarrow> fault_message \<Rightarrow> 64 word \<Rightarrow> monitor_trace
     \<Rightarrow> monitor_next \<times> monitor_trace" where
  "monitor_dispatch abi reg m tcb_cap tr =
     (let badge = recv_badge m;
          label = get_label abi (recv_tag m)
      in if label = seL4_Fault_NullFault \<and> unat badge < MAX_PDS
         then
           (let sc = scheduling_contexts reg (unat badge);
                tr1 = tr\<lparr>syscalls := syscalls tr
                         @ [SchedContext_UnbindObject sc tcb_cap,
                            SchedContext_Bind sc (notification_caps reg (unat badge))]\<rparr>;
                err = bind_error m
            in if err \<noteq> seL4_NoError
               then (Recv_Again, tr1\<lparr>printed :=
                       puts ''MON|ERROR: could not bind scheduling context to notification object''
                         (printed tr1)\<rparr>)
               else (Recv_Again, tr1\<lparr>printed :=
                       puts ([CHR 0x27] @ '' is now passive!'' @ [CHR 0x0A])
                         (puts (pd_names reg (unat badge))
                           (puts (''MON|INFO: PD '' @ [CHR 0x27]) (printed tr1)))\<rparr>))
         else
           (let tr1 = tr\<lparr>printed :=
                        puts [CHR 0x0A] (puthex64 tcb_cap (puts ''  tcb cap: ''
                          (puthex64 badge (puts ''  badge: ''
                            (puthex32 (ucast label)
                              (puts ''MON|ERROR: received message '' (printed tr)))))))\<rparr>
            in if unat badge < MAX_PDS \<and> pd_names reg (unat badge) \<noteq> []
               then
                 (let tr2 = tr1\<lparr>printed :=
                              puts [CHR 0x0A] (puts (pd_names reg (unat badge))
                                (puts ''MON|ERROR: faulting PD: '' (printed tr1))),
                            syscalls := syscalls tr1 @ [TCB_ReadRegisters tcb_cap]\<rparr>
                  in if read_registers_error m \<noteq> seL4_NoError
                     then monitor_fail ''error reading registers'' tr2
                     else (Recv_Again, tr2\<lparr>printed := puts (fault_report m) (printed tr2)\<rparr>))
               else monitor_fail (''MON|ERROR: unknown/invalid badge'' @ [CHR 0x0A]) tr1))"

text \<open>
  One round: the first statement after the receive is
  \<^verbatim>\<open>seL4_Word tcb_cap = pd_tcbs[badge];\<close>, before any test of the badge.
\<close>

definition monitor_round ::
  "msginfo_abi \<Rightarrow> registry \<Rightarrow> fault_message \<Rightarrow> monitor_trace \<Rightarrow> monitor_next \<times> monitor_trace" where
  "monitor_round abi reg m tr =
     (case array_read MAX_PDS (pd_tcbs reg) (unat (recv_badge m)) of
        In_Bounds tcb_cap \<Rightarrow> monitor_dispatch abi reg m tcb_cap tr
      | Out_Of_Bounds \<Rightarrow>
          (case stray_read m of
             None \<Rightarrow> (Bounds_Trap, tr)
           | Some tcb_cap \<Rightarrow> monitor_dispatch abi reg m tcb_cap tr))"

section \<open>Concrete inputs\<close>

text \<open>
  Inputs on which the model is run: a kernel that answers every call with success, one
  that answers call number \<open>n\<close> (from 0) with the error \<open>err\<close>, an idle transport and
  state, and a buffer holding a list of words (zero after them).
\<close>

definition ok_kernel :: "nat kernel" where
  "ok_kernel k c = ((0, call_xport c), Suc k)"

definition failing_kernel :: "nat \<Rightarrow> 64 word \<Rightarrow> nat kernel" where
  "failing_kernel n err k c = ((if k = n then push_bit 12 err else 0, call_xport c), Suc k)"

definition idle_transport :: transport where
  "idle_transport = \<lparr> caps = (\<lambda>j. 0), msg = (\<lambda>j. 0), mr0 = 0, mr1 = 0, mr2 = 0, mr3 = 0 \<rparr>"

definition idle_state :: "nat mstate" where
  "idle_state = \<lparr> xport = idle_transport, kstate = 0, calls = [], console = [] \<rparr>"

definition buffer_of :: "64 word list \<Rightarrow> 32 word \<Rightarrow> 64 word" where
  "buffer_of ws a = (if unat a < length ws then ws ! unat a else 0)"

text \<open>
  The record of the specification's example: three iterations (the high half of the header
  is 2), tag 5 (five message words, no capability), target 100 with stride 10; the message
  words are 1 to 5 with strides 1.
\<close>

definition example_record :: "64 word list" where
  "example_record = [0x200000005, 100, 1, 2, 3, 4, 5, 10, 1, 1, 1, 1, 1]"

text \<open>
  A record with the high half of the header at its largest, \<^verbatim>\<open>0xffffffff\<close>: the iteration
  count is \<open>2^32\<close>. Its tag \<^verbatim>\<open>0x81\<close> announces one capability word and one message word:
  target 50 with stride 2, capability word 9 with stride 1, message word 4 with stride 3.
\<close>

definition endless_record :: "64 word list" where
  "endless_record = [0xffffffff00000081, 50, 9, 4, 2, 1, 3]"

text \<open>
  A stream of two records: one iteration of a call to target 7 with one capability word
  (tag \<^verbatim>\<open>0x80\<close>), then two iterations of a call to target 20 with one message word
  (tag 1). The third list is a record whose tag reports one unwrapped capability
  (tag \<^verbatim>\<open>0x200\<close>).
\<close>

definition example_stream :: "64 word list" where
  "example_stream = [0x80, 7, 42, 0x100000001, 20, 9, 5, 3]"

definition unwrapped_record :: "64 word list" where
  "unwrapped_record = [0x200, 7]"

text \<open>What a run issued, for reading results: the targets of the calls, oldest first.\<close>

definition issued_targets :: "('a outcome \<times> 'k mstate) option \<Rightarrow> 64 word list option" where
  "issued_targets r = map_option (\<lambda>(out, st). map call_service (calls st)) r"

definition run_outcome :: "('a outcome \<times> 'k mstate) option \<Rightarrow> 'a outcome option" where
  "run_outcome r = map_option fst r"

text \<open>
  The manifests of the specification's example: one region at \<^verbatim>\<open>0x1000\<close> of size class
  12, not a device, in the slot range from 10 to 11; the kernel reports the same, or size
  class 13.
\<close>

definition example_untyped_info :: untyped_info where
  "example_untyped_info =
     \<lparr> cap_start = 10, cap_end = 11,
       regions = (\<lambda>i. \<lparr> paddr = 0x1000, size_bits = 12, is_device = 0 \<rparr>) \<rparr>"

definition example_bootinfo :: "8 word \<Rightarrow> seL4_BootInfo" where
  "example_bootinfo bits =
     \<lparr> untyped_start = 10, untyped_end = 11,
       untypedList = (\<lambda>i. \<lparr> ut_paddr = 0x1000, ut_sizeBits = bits, ut_isDevice = 0 \<rparr>),
       untypedList_size = 230 \<rparr>"

text \<open>
  A registry with one named component, at badge 1, and messages for it: the tag carries
  the label in libsel4's layout.
\<close>

definition example_registry :: registry where
  "example_registry =
     \<lparr> pd_names = (\<lambda>b. if b = 1 then ''hello'' else []),
       pd_tcbs = (\<lambda>b. 100 + of_nat b),
       scheduling_contexts = (\<lambda>b. 200 + of_nat b),
       notification_caps = (\<lambda>b. 300 + of_nat b),
       pd_stack_addrs = (\<lambda>b. 0) \<rparr>"

definition example_message :: "64 word \<Rightarrow> 64 word \<Rightarrow> fault_message" where
  "example_message label badge =
     \<lparr> recv_tag = push_bit 12 label, recv_badge = badge, stray_read = None,
       unbind_error = 0, bind_error = 0, read_registers_error = 0, fault_report = [] \<rparr>"

definition empty_trace :: monitor_trace where
  "empty_trace = \<lparr> syscalls = [], printed = [] \<rparr>"

section \<open>Auxiliary facts\<close>


subsection \<open>Words\<close>

lemma unat_ucast_32_64: "unat (ucast (i :: 32 word) :: 64 word) = unat i"
  by (simp add: unsigned_ucast_eq take_bit_nat_eq_self unsigned_less [of i, simplified] order_less_trans [OF unsigned_less [of i]])

lemma ucast_less_iff: "(ucast (i :: 32 word) :: 64 word) < x \<longleftrightarrow> unat i < unat x"
  by (simp add: word_less_nat_alt unat_ucast_32_64)

lemma unat_of_nat_32: "n < 2 ^ 32 \<Longrightarrow> unat (of_nat n :: 32 word) = n"
  by (simp add: unat_of_nat)

lemma of_nat_32_eq_iff: "j < 2 ^ 32 \<Longrightarrow> n < 2 ^ 32 \<Longrightarrow> (of_nat j :: 32 word) = of_nat n \<longleftrightarrow> j = n"
  by (metis unat_of_nat_32)

lemma unat_plus_one_le: "unat (i + 1 :: 32 word) \<le> unat i + 1"
  by (simp add: unat_word_ariths)

lemma ucast_of_nat_32_64:
  assumes "m < 2 ^ 32"
  shows "(ucast (of_nat m :: 32 word) :: 64 word) = of_nat m"
proof -
  have "unat (ucast (of_nat m :: 32 word) :: 64 word) = m"
    using assms by (simp only: unat_ucast_32_64 unat_of_nat_32)
  moreover have "unat (of_nat m :: 64 word) = m"
    using assms by (simp add: unat_of_nat)
  ultimately show ?thesis
    by (simp add: word_unat_eq_iff)
qed

lemma of_nat_32_pos:
  assumes "m < 2 ^ 32"
  shows "0 < (of_nat m :: 32 word) \<longleftrightarrow> 0 < m"
  using unat_of_nat_32 [OF assms] by (simp add: word_less_nat_alt)

lemma unat_drop_bit_32_less: "unat (drop_bit 32 (cmd :: 64 word)) < 2 ^ 32"
proof -
  have "unat cmd < 2 ^ 64"
    using unsigned_less [of cmd, where 'a = nat] by simp
  then have "unat cmd div 2 ^ 32 < 2 ^ 32"
    by (simp add: less_mult_imp_div_less)
  moreover have "unat (drop_bit 32 cmd) = drop_bit 32 (unat cmd)"
    by (rule unat_drop_bit_eq)
  moreover have "drop_bit 32 (unat cmd) = unat cmd div 2 ^ 32"
    by (rule drop_bit_eq_div)
  ultimately show ?thesis
    by simp
qed

subsection \<open>Lists\<close>

lemma map_by_index: "map f cs = map (\<lambda>i. f (cs ! i)) [0..<length cs]"
  by (rule nth_equalityI) simp_all

subsection \<open>Switch tables\<close>

lemma switch_string_nonempty:
  assumes "\<forall>(k, s) \<in> set table. s \<noteq> []" and "dflt \<noteq> []"
  shows "switch_string table dflt code \<noteq> []"
proof (cases "map_of table code")
  case None
  then show ?thesis using assms(2) by (simp add: switch_string_def)
next
  case (Some s)
  then have "(code, s) \<in> set table" by (rule map_of_SomeD)
  with assms(1) have "s \<noteq> []" by blast
  with Some show ?thesis by (simp add: switch_string_def)
qed

lemma switch_string_default:
  assumes "code \<notin> fst ` set table"
  shows "switch_string table dflt code = dflt"
proof -
  from assms have "map_of table code = None" by (simp add: map_of_eq_None_iff)
  then show ?thesis by (simp add: switch_string_def)
qed

subsection \<open>Loading the transport\<close>

lemma fold_set_cap_step_caps:
  assumes "j < n" and "n \<le> 2 ^ 32"
  shows "caps (fold (set_cap_step data rc i) [0..<n] t) (of_nat j) =
           (if 0 < i then data (cap_offset rc + of_nat j) + data (cap_incr_offset rc + of_nat j) * ucast i
            else data (cap_offset rc + of_nat j))"
  using assms
proof (induction n)
  case 0
  then show ?case by simp
next
  case (Suc n)
  show ?case
  proof (cases "j = n")
    case True
    then show ?thesis by (simp add: set_cap_step_def seL4_SetCap_def Let_def)
  next
    case False
    with Suc.prems have jn: "j < n" and n: "n < 2 ^ 32" by simp_all
    then have "(of_nat j :: 32 word) \<noteq> of_nat n"
      using False by (simp add: of_nat_32_eq_iff)
    with Suc.IH jn n show ?thesis
      by (simp add: set_cap_step_def seL4_SetCap_def Let_def)
  qed
qed

lemma fold_set_mr_step_caps:
  "caps (fold (set_mr_step data rc i) ns t) = caps t"
  by (induction ns arbitrary: t) (simp_all add: set_mr_step_def seL4_SetMR_def Let_def)

lemma message_word_set_mr_step:
  "message_word (set_mr_step data rc i n t) k =
     (if k = of_nat n
      then (if 0 < i then data (mr_offset rc + of_nat n) + data (mr_incr_offset rc + of_nat n) * ucast i
            else data (mr_offset rc + of_nat n))
      else message_word t k)"
  by (simp add: set_mr_step_def seL4_SetMR_def message_word_def Let_def)

lemma fold_set_mr_step_message_word:
  assumes "j < n" and "n \<le> 2 ^ 32"
  shows "message_word (fold (set_mr_step data rc i) [0..<n] t) (of_nat j) =
           (if 0 < i then data (mr_offset rc + of_nat j) + data (mr_incr_offset rc + of_nat j) * ucast i
            else data (mr_offset rc + of_nat j))"
  using assms
proof (induction n)
  case 0
  then show ?case by simp
next
  case (Suc n)
  show ?case
  proof (cases "j = n")
    case True
    then show ?thesis by (simp add: message_word_set_mr_step)
  next
    case False
    with Suc.prems have jn: "j < n" and n: "n < 2 ^ 32" by simp_all
    then have "(of_nat j :: 32 word) \<noteq> of_nat n"
      using False by (simp add: of_nat_32_eq_iff)
    with Suc.IH jn n show ?thesis
      by (simp add: message_word_set_mr_step)
  qed
qed

lemma load_transport_caps:
  assumes "j < unat (cap_count rc)"
  shows "caps (load_transport data rc i t) (of_nat j) =
           (if 0 < i then data (cap_offset rc + of_nat j) + data (cap_incr_offset rc + of_nat j) * ucast i
            else data (cap_offset rc + of_nat j))"
proof -
  have "unat (cap_count rc) \<le> 2 ^ 32"
    using unsigned_less [of "cap_count rc", where 'a = nat] by simp
  with assms show ?thesis
    by (simp add: load_transport_def fold_set_mr_step_caps fold_set_cap_step_caps)
qed

lemma load_transport_message_word:
  assumes "j < unat (mr_count rc)"
  shows "message_word (load_transport data rc i t) (of_nat j) =
           (if 0 < i then data (mr_offset rc + of_nat j) + data (mr_incr_offset rc + of_nat j) * ucast i
            else data (mr_offset rc + of_nat j))"
proof -
  have "unat (mr_count rc) \<le> 2 ^ 32"
    using unsigned_less [of "mr_count rc", where 'a = nat] by simp
  with assms show ?thesis
    by (simp add: load_transport_def fold_set_mr_step_message_word)
qed

subsection \<open>One iteration, and the loop unrolled\<close>

lemma invocation_iteration_calls:
  "calls (snd (invocation_iteration abi kern data rc idx i st)) =
     calls st @ [iteration_call data rc i (xport st)]"
  by (simp add: invocation_iteration_def Let_def fail_def split: prod.split)

lemma invocation_iteration_Returned:
  assumes "reply_result abi (fst (fst (kern (kstate st) (iteration_call data rc i (xport st))))) = seL4_NoError"
  shows "invocation_iteration abi kern data rc idx i st =
           (Returned (),
            st\<lparr>xport := snd (fst (kern (kstate st) (iteration_call data rc i (xport st)))),
               kstate := snd (kern (kstate st) (iteration_call data rc i (xport st))),
               calls := calls st @ [iteration_call data rc i (xport st)]\<rparr>)"
proof -
  obtain a b k where "kern (kstate st) (iteration_call data rc i (xport st)) = ((a, b), k)"
    by (metis surj_pair)
  with assms show ?thesis
    by (simp add: invocation_iteration_def Let_def)
qed

lemma invocation_iteration_Halted:
  assumes "reply_result abi (fst (fst (kern (kstate st) (iteration_call data rc i (xport st))))) \<noteq> seL4_NoError"
  shows "invocation_iteration abi kern data rc idx i st =
           (Halted,
            st\<lparr>xport := snd (fst (kern (kstate st) (iteration_call data rc i (xport st)))),
               kstate := snd (kern (kstate st) (iteration_call data rc i (xport st))),
               calls := calls st @ [iteration_call data rc i (xport st)],
               console := fail_output ''invocation error''
                 (invocation_error_output
                    (reply_result abi (fst (fst (kern (kstate st) (iteration_call data rc i (xport st))))))
                    idx i (console st))\<rparr>)"
proof -
  obtain a b k where "kern (kstate st) (iteration_call data rc i (xport st)) = ((a, b), k)"
    by (metis surj_pair)
  with assms show ?thesis
    by (simp add: invocation_iteration_def Let_def fail_def)
qed

lemma invocation_iteration_fst:
  assumes "\<forall>k c. reply_result abi (fst (fst (kern k c))) = seL4_NoError"
  shows "fst (invocation_iteration abi kern data rc idx i st) = Returned ()"
proof -
  from assms have
    "reply_result abi (fst (fst (kern (kstate st) (iteration_call data rc i (xport st))))) = seL4_NoError"
    by blast
  then have "invocation_iteration abi kern data rc idx i st =
           (Returned (),
            st\<lparr>xport := snd (fst (kern (kstate st) (iteration_call data rc i (xport st)))),
               kstate := snd (kern (kstate st) (iteration_call data rc i (xport st))),
               calls := calls st @ [iteration_call data rc i (xport st)]\<rparr>)"
    by (rule invocation_iteration_Returned)
  then show ?thesis by simp
qed

lemma calls_succeed_Nil: "calls_succeed abi kern k []"
  by (simp add: calls_succeed_def)

lemma calls_succeed_Cons:
  "calls_succeed abi kern k (c # cs) \<longleftrightarrow>
     reply_result abi (fst (fst (kern k c))) = seL4_NoError
     \<and> calls_succeed abi kern (snd (kern k c)) cs"
  by (simp add: calls_succeed_def)

lemma kernel_after_append:
  "kernel_after kern k (cs @ ds) = kernel_after kern (kernel_after kern k cs) ds"
  by (induction cs arbitrary: k) simp_all

lemma calls_succeed_append:
  "calls_succeed abi kern k (cs @ ds) \<longleftrightarrow>
     calls_succeed abi kern k cs \<and> calls_succeed abi kern (kernel_after kern k cs) ds"
  by (induction cs arbitrary: k) (simp_all add: calls_succeed_Nil calls_succeed_Cons)

lemma invocation_loop_stop:
  "\<not> ucast i < iterations rc \<Longrightarrow>
     invocation_loop abi kern data rc idx i st = Some (Returned (), st)"
  by (simp add: invocation_loop.simps [of abi kern data rc idx i st])

lemma invocation_loop_unroll:
  assumes "unat i + n \<le> unat (iterations rc)" and "i' = i + of_nat n"
  shows "invocation_loop abi kern data rc idx i st =
           (case first_iterations abi kern data rc idx n i st of
              (Halted, st') \<Rightarrow> Some (Halted, st')
            | (Returned u, st') \<Rightarrow> invocation_loop abi kern data rc idx i' st')"
  using assms
proof (induction n arbitrary: i st)
  case 0
  then show ?case by simp
next
  case (Suc n)
  then have lt: "ucast i < iterations rc"
    by (simp add: ucast_less_iff)
  obtain out st1 where it: "invocation_iteration abi kern data rc idx i st = (out, st1)"
    by (cases "invocation_iteration abi kern data rc idx i st")
  show ?case
  proof (cases out)
    case Halted
    with it lt show ?thesis
      by (simp add: invocation_loop.simps [of abi kern data rc idx i st])
  next
    case (Returned u)
    have "unat (i + 1) + n \<le> unat (iterations rc)"
      using Suc.prems(1) unat_plus_one_le [of i] by simp
    moreover have "i' = i + 1 + of_nat n"
      using Suc.prems(2) by simp
    ultimately have "invocation_loop abi kern data rc idx (i + 1) st1 =
           (case first_iterations abi kern data rc idx n (i + 1) st1 of
              (Halted, st') \<Rightarrow> Some (Halted, st')
            | (Returned u, st') \<Rightarrow> invocation_loop abi kern data rc idx i' st')"
      by (rule Suc.IH)
    with Returned it lt show ?thesis
      by (simp add: invocation_loop.simps [of abi kern data rc idx i st])
  qed
qed

lemma invocation_loop_total:
  assumes "unat (iterations rc) < 2 ^ 32"
  shows "invocation_loop abi kern data rc idx 0 st =
           Some (first_iterations abi kern data rc idx (unat (iterations rc)) 0 st)"
proof -
  let ?n = "unat (iterations rc)"
  define j :: "32 word" where "j = of_nat ?n"
  have "unat j = ?n"
    unfolding j_def using assms by (rule unat_of_nat_32)
  then have "\<not> ucast j < iterations rc"
    unfolding ucast_less_iff by simp
  then have stop: "invocation_loop abi kern data rc idx j st' = Some (Returned (), st')" for st'
    by (rule invocation_loop_stop)
  have "invocation_loop abi kern data rc idx 0 st =
           (case first_iterations abi kern data rc idx ?n 0 st of
              (Halted, st') \<Rightarrow> Some (Halted, st')
            | (Returned u, st') \<Rightarrow> invocation_loop abi kern data rc idx j st')"
    by (rule invocation_loop_unroll) (simp_all add: j_def)
  then show ?thesis
    by (simp add: stop split: prod.split outcome.split)
qed

lemma first_iterations_run:
  "\<exists>cs. calls (snd (first_iterations abi kern data rc idx n i st)) = calls st @ cs
        \<and> kstate (snd (first_iterations abi kern data rc idx n i st)) = kernel_after kern (kstate st) cs
        \<and> length cs \<le> n
        \<and> (\<forall>m<length cs. \<exists>t. cs ! m = iteration_call data rc (i + of_nat m) t)
        \<and> (fst (first_iterations abi kern data rc idx n i st) = Returned () \<longrightarrow>
              length cs = n \<and> calls_succeed abi kern (kstate st) cs
              \<and> console (snd (first_iterations abi kern data rc idx n i st)) = console st)
        \<and> (fst (first_iterations abi kern data rc idx n i st) = Halted \<longrightarrow>
              cs \<noteq> [] \<and> calls_succeed abi kern (kstate st) (butlast cs)
              \<and> \<not> calls_succeed abi kern (kstate st) cs)"
proof (induction n arbitrary: i st)
  case 0
  show ?case by (simp add: calls_succeed_Nil)
next
  case (Suc n)
  let ?c = "iteration_call data rc i (xport st)"
  let ?k = "kern (kstate st) ?c"
  show ?case
  proof (cases "reply_result abi (fst (fst ?k)) = seL4_NoError")
    case False
    then have it: "invocation_iteration abi kern data rc idx i st =
           (Halted,
            st\<lparr>xport := snd (fst ?k), kstate := snd ?k, calls := calls st @ [?c],
               console := fail_output ''invocation error''
                 (invocation_error_output (reply_result abi (fst (fst ?k))) idx i (console st))\<rparr>)"
      by (rule invocation_iteration_Halted)
    have "\<forall>m<length [?c]. \<exists>t. [?c] ! m = iteration_call data rc (i + of_nat m) t"
      by auto
    with it False show ?thesis
      by (intro exI [of _ "[?c]"]) (simp add: calls_succeed_Nil calls_succeed_Cons)
  next
    case True
    let ?st1 = "st\<lparr>xport := snd (fst ?k), kstate := snd ?k, calls := calls st @ [?c]\<rparr>"
    let ?r = "first_iterations abi kern data rc idx n (i + 1) ?st1"
    from True have it: "invocation_iteration abi kern data rc idx i st = (Returned (), ?st1)"
      by (rule invocation_iteration_Returned)
    then have step: "first_iterations abi kern data rc idx (Suc n) i st = ?r"
      by simp
    from Suc.IH [of "i + 1" ?st1] obtain cs where
      cs: "calls (snd ?r) = calls ?st1 @ cs"
        "kstate (snd ?r) = kernel_after kern (kstate ?st1) cs"
        "length cs \<le> n"
        "\<forall>m<length cs. \<exists>t. cs ! m = iteration_call data rc (i + 1 + of_nat m) t"
        "fst ?r = Returned () \<longrightarrow>
           length cs = n \<and> calls_succeed abi kern (kstate ?st1) cs \<and> console (snd ?r) = console ?st1"
        "fst ?r = Halted \<longrightarrow>
           cs \<noteq> [] \<and> calls_succeed abi kern (kstate ?st1) (butlast cs)
           \<and> \<not> calls_succeed abi kern (kstate ?st1) cs"
      by blast
    let ?cs = "?c # cs"
    have nth: "\<exists>t. ?cs ! m = iteration_call data rc (i + of_nat m) t" if "m < length ?cs" for m
    proof (cases m)
      case 0
      then show ?thesis by auto
    next
      case (Suc m')
      with that cs(4) have "\<exists>t. cs ! m' = iteration_call data rc (i + 1 + of_nat m') t"
        by simp
      with Suc show ?thesis by (simp add: add.assoc)
    qed
    have a: "calls (snd ?r) = calls st @ ?cs"
      using cs(1) by simp
    have b: "kstate (snd ?r) = kernel_after kern (kstate st) ?cs"
      using cs(2) by simp
    have c: "length ?cs \<le> Suc n"
      using cs(3) by simp
    have d: "fst ?r = Returned () \<longrightarrow>
           length ?cs = Suc n \<and> calls_succeed abi kern (kstate st) ?cs \<and> console (snd ?r) = console st"
      using cs(5) True by (simp add: calls_succeed_Cons)
    have e: "fst ?r = Halted \<longrightarrow>
           ?cs \<noteq> [] \<and> calls_succeed abi kern (kstate st) (butlast ?cs)
           \<and> \<not> calls_succeed abi kern (kstate st) ?cs"
      using cs(6) True by (simp add: calls_succeed_Cons)
    from a b c d e nth show ?thesis
      unfolding step by blast
  qed
qed

text \<open>
  A header whose high half is \<^verbatim>\<open>0xffffffff\<close> asks for \<open>2^32\<close> iterations. The counter
  \<^verbatim>\<open>i\<close> has 32 bits and stays below that bound, so the loop can only end in \<^verbatim>\<open>fail\<close>:
  when every call succeeds it does not return. The statements below about records whose
  executor returns therefore leave that one header value out.
\<close>

lemma invocation_loop_Some_not_endless:
  assumes "invocation_loop abi kern data rc idx i st = Some r"
  shows "(\<forall>k c. reply_result abi (fst (fst (kern k c))) = seL4_NoError)
           \<longrightarrow> unat (iterations rc) \<noteq> 2 ^ 32"
proof (rule invocation_loop.raw_induct
    [where P = "\<lambda>abi kern data rc idx i st r.
        (\<forall>k c. reply_result abi (fst (fst (kern k c))) = seL4_NoError)
          \<longrightarrow> unat (iterations rc) \<noteq> 2 ^ 32"
      and abi = abi and kern = kern and invocation_data = data and rc = rc and idx = idx
      and i = i and st = st and y = r], goal_cases)
  case (1 loop abi kern data rc idx i st r)
  show ?case
  proof (intro impI notI)
    assume ok: "\<forall>k c. reply_result abi (fst (fst (kern k c))) = seL4_NoError"
      and n: "unat (iterations rc) = 2 ^ 32"
    have "unat i < 2 ^ 32"
      using unsigned_less [of i, where 'a = nat] by simp
    with n have lt: "ucast i < iterations rc"
      by (simp add: ucast_less_iff)
    obtain st1 where it: "invocation_iteration abi kern data rc idx i st = (Returned (), st1)"
      using invocation_iteration_fst [OF ok, of data rc idx i st]
      by (cases "invocation_iteration abi kern data rc idx i st") simp
    from 1(2) lt it have "loop abi kern data rc idx (i + 1) st1 = Some r"
      by simp
    from 1(1) [OF this] ok n show False by blast
  qed
next
  case 2
  show ?case by (rule assms)
qed

lemma invocation_loop_never_returns:
  assumes ok: "\<forall>k c. reply_result abi (fst (fst (kern k c))) = seL4_NoError"
    and n: "unat (iterations rc) = 2 ^ 32"
  shows "invocation_loop abi kern data rc idx i st = None"
proof (cases "invocation_loop abi kern data rc idx i st")
  case None
  then show ?thesis .
next
  case (Some r)
  from invocation_loop_Some_not_endless [OF this] ok n show ?thesis by blast
qed

subsection \<open>The decoded record\<close>

lemma iterations_decode:
  "iterations (decode_invocation abi data off) = drop_bit 32 (data off) + 1"
  by (simp add: decode_invocation_def Let_def)

lemma unat_iterations:
  "unat (iterations (decode_invocation abi data off)) = header_iterations (data off)"
proof -
  have "unat (drop_bit 32 (data off) + 1) = unat (drop_bit 32 (data off)) + 1"
    using unat_drop_bit_32_less [of "data off"] by (simp add: unat_word_ariths)
  then show ?thesis
    by (simp add: iterations_decode header_iterations_def)
qed

lemma iterations_gt_1:
  "1 < iterations (decode_invocation abi data off) \<longleftrightarrow> 1 < header_iterations (data off)"
  using unat_iterations [of abi data off] by (simp add: word_less_nat_alt)

lemma decode_invocation_common:
  "tag (decode_invocation abi data off) = header_tag (data off)"
  "service (decode_invocation abi data off) = record_target data off"
  "cap_count (decode_invocation abi data off) = of_nat (header_cap_count abi (data off))"
  "mr_count (decode_invocation abi data off) = of_nat (header_mr_count abi (data off))"
  "unat (cap_count (decode_invocation abi data off)) = header_cap_count abi (data off)"
  "unat (mr_count (decode_invocation abi data off)) = header_mr_count abi (data off)"
  "cap_offset (decode_invocation abi data off) = off + 2"
  "mr_offset (decode_invocation abi data off) = off + 2 + of_nat (header_cap_count abi (data off))"
  by (simp_all add: decode_invocation_def Let_def header_tag_def record_target_def
      header_cap_count_def header_mr_count_def)

lemma decode_invocation_strides:
  assumes "1 < header_iterations (data off)"
  shows "service_incr (decode_invocation abi data off) = record_target_stride abi data off"
    "cap_incr_offset (decode_invocation abi data off) =
       off + 2 + of_nat (header_cap_count abi (data off)) + of_nat (header_mr_count abi (data off)) + 1"
    "mr_incr_offset (decode_invocation abi data off) =
       off + 2 + of_nat (header_cap_count abi (data off)) + of_nat (header_mr_count abi (data off)) + 1
         + of_nat (header_cap_count abi (data off))"
proof -
  have gt: "1 < drop_bit 32 (data off) + 1"
    using assms iterations_gt_1 [of abi data off] by (simp add: iterations_decode)
  show "service_incr (decode_invocation abi data off) = record_target_stride abi data off"
    "cap_incr_offset (decode_invocation abi data off) =
       off + 2 + of_nat (header_cap_count abi (data off)) + of_nat (header_mr_count abi (data off)) + 1"
    "mr_incr_offset (decode_invocation abi data off) =
       off + 2 + of_nat (header_cap_count abi (data off)) + of_nat (header_mr_count abi (data off)) + 1
         + of_nat (header_cap_count abi (data off))"
    using gt
    by (simp_all add: decode_invocation_def Let_def header_tag_def record_target_stride_def
      header_cap_count_def header_mr_count_def)
qed

lemma next_offset_record_words:
  "next_offset (decode_invocation abi data off) = off + of_nat (record_words abi (data off))"
proof (cases "1 < header_iterations (data off)")
  case True
  then have gt: "1 < drop_bit 32 (data off) + 1"
    using iterations_gt_1 [of abi data off] by (simp add: iterations_decode)
  from True have "header_iterations (data off) \<noteq> 1" by simp
  with gt show ?thesis
    by (simp add: decode_invocation_def Let_def record_words_def header_tag_def
        header_cap_count_def header_mr_count_def)
next
  case False
  then have ngt: "\<not> 1 < drop_bit 32 (data off) + 1"
    using iterations_gt_1 [of abi data off] by (simp add: iterations_decode)
  from False have "header_iterations (data off) = 1"
    by (simp add: header_iterations_def)
  with ngt show ?thesis
    by (simp add: decode_invocation_def Let_def record_words_def header_tag_def
        header_cap_count_def header_mr_count_def)
qed

lemma record_words_ge_2: "2 \<le> record_words abi cmd"
  by (simp add: record_words_def)

lemma record_words_cases:
  "header_iterations cmd = 1 \<Longrightarrow>
     record_words abi cmd = 2 + header_cap_count abi cmd + header_mr_count abi cmd"
  "1 < header_iterations cmd \<Longrightarrow>
     record_words abi cmd = 2 + header_cap_count abi cmd + header_mr_count abi cmd
       + (1 + header_cap_count abi cmd + header_mr_count abi cmd)"
  by (simp_all add: record_words_def)

lemma record_start_ge: "2 * k \<le> record_start abi data k"
proof (induction k)
  case 0
  then show ?case by simp
next
  case (Suc k)
  then show ?case
    using record_words_ge_2 [of abi "data (of_nat (record_start abi data k))"] by simp
qed

lemma record_start_mono: "k \<le> n \<Longrightarrow> record_start abi data k \<le> record_start abi data n"
proof (induction n)
  case 0
  then show ?case by simp
next
  case (Suc n)
  then show ?case by (cases "k = Suc n") simp_all
qed

lemma iteration_call_service:
  assumes "1 < header_iterations (data off)" and "m < 2 ^ 32"
  shows "call_service (iteration_call data (decode_invocation abi data off) (of_nat m) t) =
           record_target data off + record_target_stride abi data off * of_nat m"
  using assms
  by (simp add: iteration_call_def decode_invocation_common decode_invocation_strides
      ucast_of_nat_32_64 of_nat_32_pos)

lemma iteration_call_caps:
  assumes "1 < header_iterations (data off)" and "m < 2 ^ 32"
    and "j < header_cap_count abi (data off)"
  shows "caps (call_xport (iteration_call data (decode_invocation abi data off) (of_nat m) t)) (of_nat j) =
           record_cap data off j + record_cap_stride abi data off j * of_nat m"
proof -
  let ?rc = "decode_invocation abi data off"
  have "j < unat (cap_count ?rc)"
    using assms(3) by (simp only: decode_invocation_common(5))
  then have "caps (load_transport data ?rc (of_nat m) t) (of_nat j) =
           (if 0 < (of_nat m :: 32 word)
            then data (cap_offset ?rc + of_nat j) + data (cap_incr_offset ?rc + of_nat j) * ucast (of_nat m :: 32 word)
            else data (cap_offset ?rc + of_nat j))"
    by (rule load_transport_caps)
  with assms(1,2) show ?thesis
    by (simp add: iteration_call_def decode_invocation_common decode_invocation_strides
      ucast_of_nat_32_64 of_nat_32_pos record_cap_def record_cap_stride_def)
qed

lemma iteration_call_message_word:
  assumes "1 < header_iterations (data off)" and "m < 2 ^ 32"
    and "j < header_mr_count abi (data off)"
  shows "message_word (call_xport (iteration_call data (decode_invocation abi data off) (of_nat m) t)) (of_nat j) =
           record_mr abi data off j + record_mr_stride abi data off j * of_nat m"
proof -
  let ?rc = "decode_invocation abi data off"
  have "j < unat (mr_count ?rc)"
    using assms(3) by (simp only: decode_invocation_common(6))
  then have "message_word (load_transport data ?rc (of_nat m) t) (of_nat j) =
           (if 0 < (of_nat m :: 32 word)
            then data (mr_offset ?rc + of_nat j) + data (mr_incr_offset ?rc + of_nat j) * ucast (of_nat m :: 32 word)
            else data (mr_offset ?rc + of_nat j))"
    by (rule load_transport_message_word)
  with assms(1,2) show ?thesis
    by (simp add: iteration_call_def decode_invocation_common decode_invocation_strides
      ucast_of_nat_32_64 of_nat_32_pos record_mr_def record_mr_stride_def)
qed

lemma iteration_call_tag:
  "call_tag (iteration_call data (decode_invocation abi data off) i t) = header_tag (data off)"
  by (simp add: iteration_call_def decode_invocation_common)

subsection \<open>The executor on one record\<close>

lemma perform_invocation_run:
  assumes "header_iterations (data off) < 2 ^ 32"
  shows "\<exists>out st' cs.
           perform_invocation abi kern data off idx st = Some (out, st')
           \<and> calls st' = calls st @ cs
           \<and> kstate st' = kernel_after kern (kstate st) cs
           \<and> length cs \<le> header_iterations (data off)
           \<and> (\<forall>m<length cs. \<exists>t. cs ! m = iteration_call data (decode_invocation abi data off) (of_nat m) t)
           \<and> (out \<noteq> Halted \<longrightarrow>
                 out = Returned (off + of_nat (record_words abi (data off)))
                 \<and> length cs = header_iterations (data off) \<and> console st' = console st)
           \<and> (get_capsUnwrapped abi (header_tag (data off)) = 0 \<and> calls_succeed abi kern (kstate st) cs
                 \<longrightarrow> out \<noteq> Halted)
           \<and> (\<not> calls_succeed abi kern (kstate st) cs \<longrightarrow>
                 out = Halted \<and> cs \<noteq> [] \<and> calls_succeed abi kern (kstate st) (butlast cs))"
proof (cases "get_capsUnwrapped abi (tag (decode_invocation abi data off)) \<noteq> 0")
  case True
  then have "perform_invocation abi kern data off idx st =
      Some (Halted, st\<lparr>console := fail_output ''kernel invocation should never have unwrapped caps'' (console st)\<rparr>)"
    by (simp add: perform_invocation_def Let_def fail_def)
  moreover from True have "get_capsUnwrapped abi (header_tag (data off)) \<noteq> 0"
    by (simp add: decode_invocation_common)
  ultimately show ?thesis by (simp add: calls_succeed_Nil)
next
  case False
  let ?rc = "decode_invocation abi data off"
  let ?n = "header_iterations (data off)"
  let ?r = "first_iterations abi kern data ?rc idx ?n 0 st"
  have "unat (iterations ?rc) < 2 ^ 32"
    using assms by (simp add: unat_iterations)
  then have "invocation_loop abi kern data ?rc idx 0 st
               = Some (first_iterations abi kern data ?rc idx (unat (iterations ?rc)) 0 st)"
    by (rule invocation_loop_total)
  then have loop: "invocation_loop abi kern data ?rc idx 0 st = Some ?r"
    by (simp add: unat_iterations)
  obtain cs where cs: "calls (snd ?r) = calls st @ cs"
      "kstate (snd ?r) = kernel_after kern (kstate st) cs"
      "length cs \<le> ?n"
      "\<forall>m<length cs. \<exists>t. cs ! m = iteration_call data ?rc (0 + of_nat m) t"
      "fst ?r = Returned () \<longrightarrow>
         length cs = ?n \<and> calls_succeed abi kern (kstate st) cs \<and> console (snd ?r) = console st"
      "fst ?r = Halted \<longrightarrow>
         cs \<noteq> [] \<and> calls_succeed abi kern (kstate st) (butlast cs)
         \<and> \<not> calls_succeed abi kern (kstate st) cs"
    using first_iterations_run [of abi kern data ?rc idx ?n 0 st] by blast
  obtain out st1 where r: "?r = (out, st1)"
    by (cases ?r)
  show ?thesis
  proof (cases out)
    case Halted
    with False loop r have "perform_invocation abi kern data off idx st = Some (Halted, st1)"
      by (simp add: perform_invocation_def Let_def)
    with cs r Halted show ?thesis by simp
  next
    case (Returned u)
    with False loop r have "perform_invocation abi kern data off idx st
        = Some (Returned (next_offset ?rc), st1)"
      by (simp add: perform_invocation_def Let_def)
    with cs r Returned show ?thesis by (simp add: next_offset_record_words)
  qed
qed

lemma perform_invocation_unwrapped:
  assumes "get_capsUnwrapped abi (header_tag (data off)) \<noteq> 0"
  shows "perform_invocation abi kern data off idx st =
           Some (Halted, st\<lparr>console := console st
                   @ ''FAIL: kernel invocation should never have unwrapped caps'' @ [CHR 0x0A]\<rparr>)"
  using assms
  by (simp add: perform_invocation_def Let_def fail_def fail_output_def puts_def
      decode_invocation_common)

lemma perform_invocation_error:
  assumes unwrapped: "get_capsUnwrapped abi (header_tag (data off)) = 0"
    and i: "i < header_iterations (data off)"
    and reach: "first_iterations abi kern data (decode_invocation abi data off) idx i 0 st
                  = (Returned (), st_i)"
    and err: "reply_result abi (fst (fst (kern (kstate st_i)
                (iteration_call data (decode_invocation abi data off) (of_nat i) (xport st_i)))))
                \<noteq> seL4_NoError"
  shows "perform_invocation abi kern data off idx st =
           Some (Halted,
             snd (invocation_iteration abi kern data (decode_invocation abi data off) idx (of_nat i) st_i))"
proof -
  let ?rc = "decode_invocation abi data off"
  let ?it = "invocation_iteration abi kern data ?rc idx (of_nat i) st_i"
  have halted: "fst ?it = Halted"
    using invocation_iteration_Halted [of abi kern st_i data ?rc "of_nat i" idx] err by simp
  have n: "unat (iterations ?rc) = header_iterations (data off)"
    by (rule unat_iterations)
  have "header_iterations (data off) \<le> 2 ^ 32"
    using unat_drop_bit_32_less [of "data off"] by (simp add: header_iterations_def)
  with i have i32: "i < 2 ^ 32" by simp
  have "unat (0 :: 32 word) + i \<le> unat (iterations ?rc)"
    using i n by simp
  then have "invocation_loop abi kern data ?rc idx 0 st =
           (case first_iterations abi kern data ?rc idx i 0 st of
              (Halted, st') \<Rightarrow> Some (Halted, st')
            | (Returned u, st') \<Rightarrow> invocation_loop abi kern data ?rc idx (of_nat i) st')"
    by (rule invocation_loop_unroll) simp
  with reach have l1: "invocation_loop abi kern data ?rc idx 0 st
                        = invocation_loop abi kern data ?rc idx (of_nat i) st_i"
    by simp
  have "unat (of_nat i :: 32 word) < unat (iterations ?rc)"
    using i n unat_of_nat_32 [OF i32] by simp
  then have "ucast (of_nat i :: 32 word) < iterations ?rc"
    by (simp only: ucast_less_iff)
  with halted have "invocation_loop abi kern data ?rc idx (of_nat i) st_i = Some (Halted, snd ?it)"
    by (cases ?it) (simp add: invocation_loop.simps [of abi kern data ?rc idx "of_nat i" st_i])
  with l1 unwrapped show ?thesis
    by (simp add: perform_invocation_def Let_def decode_invocation_common)
qed

subsection \<open>The executor reads its record only\<close>

lemma decode_invocation_frame:
  assumes same: "\<forall>w<record_words abi (data off). data' (off + of_nat w) = data (off + of_nat w)"
  shows "decode_invocation abi data' off = decode_invocation abi data off"
proof -
  have h: "data' off = data off"
    using same record_words_ge_2 [of abi "data off"] by (auto dest: spec [of _ 0])
  have t: "data' (off + 1) = data (off + 1)"
    using same record_words_ge_2 [of abi "data off"] by (auto dest: spec [of _ 1])
  have s: "data' (off + 2 + ucast (get_extraCaps abi (data off AND 0xffffffff))
                   + ucast (get_length abi (data off AND 0xffffffff)))
         = data (off + 2 + ucast (get_extraCaps abi (data off AND 0xffffffff))
                   + ucast (get_length abi (data off AND 0xffffffff)))"
    if "1 < drop_bit 32 (data off) + 1"
  proof -
    let ?w = "2 + header_cap_count abi (data off) + header_mr_count abi (data off)"
    have "1 < header_iterations (data off)"
      using that iterations_gt_1 [of abi data off] by (simp add: iterations_decode)
    then have "?w < record_words abi (data off)"
      by (simp add: record_words_cases)
    with same have "data' (off + of_nat ?w) = data (off + of_nat ?w)"
      by blast
    then show ?thesis
      by (simp add: header_cap_count_def header_mr_count_def header_tag_def add.assoc)
  qed
  show ?thesis
    using s by (simp add: decode_invocation_def Let_def h t)
qed

lemma load_transport_frame:
  assumes same: "\<forall>w<record_words abi (data off). data' (off + of_nat w) = data (off + of_nat w)"
    and i: "i = 0 \<or> 1 < header_iterations (data off)"
  shows "load_transport data' (decode_invocation abi data off) i t
           = load_transport data (decode_invocation abi data off) i t"
proof -
  let ?rc = "decode_invocation abi data off"
  let ?c = "header_cap_count abi (data off)"
  let ?m = "header_mr_count abi (data off)"
  have base: "data' (off + 2 + of_nat w) = data (off + 2 + of_nat w)" if "w < ?c + ?m" for w
  proof -
    have "2 + w < record_words abi (data off)"
      using that by (simp add: record_words_def)
    with same have "data' (off + of_nat (2 + w)) = data (off + of_nat (2 + w))"
      by blast
    then show ?thesis by (simp add: add.assoc)
  qed
  have stride: "data' (off + 2 + of_nat ?c + of_nat ?m + 1 + of_nat w)
                  = data (off + 2 + of_nat ?c + of_nat ?m + 1 + of_nat w)"
    if "w < ?c + ?m" and "1 < header_iterations (data off)" for w
  proof -
    have "2 + ?c + ?m + 1 + w < record_words abi (data off)"
      using that by (simp add: record_words_cases)
    with same have "data' (off + of_nat (2 + ?c + ?m + 1 + w)) = data (off + of_nat (2 + ?c + ?m + 1 + w))"
      by blast
    then show ?thesis by (simp add: add.assoc)
  qed
  have caps_eq: "set_cap_step data' ?rc i n t' = set_cap_step data ?rc i n t'" if "n < ?c" for n t'
  proof -
    have r1: "data' (cap_offset ?rc + of_nat n) = data (cap_offset ?rc + of_nat n)"
      using base [of n] that by (simp add: decode_invocation_common(7))
    have r2: "data' (cap_incr_offset ?rc + of_nat n) = data (cap_incr_offset ?rc + of_nat n)" if "0 < i"
    proof -
      from that i have gt: "1 < header_iterations (data off)" by auto
      with stride [of n] \<open>n < ?c\<close> show ?thesis
        by (simp add: decode_invocation_strides(2))
    qed
    show ?thesis
    proof (cases "0 < i")
      case True
      with r2 show ?thesis by (simp only: set_cap_step_def Let_def r1 if_True)
    next
      case False
      then show ?thesis by (simp only: set_cap_step_def Let_def r1 if_False)
    qed
  qed
  have mrs_eq: "set_mr_step data' ?rc i n t' = set_mr_step data ?rc i n t'" if "n < ?m" for n t'
  proof -
    have r1: "data' (mr_offset ?rc + of_nat n) = data (mr_offset ?rc + of_nat n)"
      using base [of "?c + n"] that by (simp add: decode_invocation_common(8) add.assoc)
    have r2: "data' (mr_incr_offset ?rc + of_nat n) = data (mr_incr_offset ?rc + of_nat n)" if "0 < i"
    proof -
      from that i have gt: "1 < header_iterations (data off)" by auto
      with stride [of "?c + n"] \<open>n < ?m\<close> show ?thesis
        by (simp add: decode_invocation_strides(3) add.assoc)
    qed
    show ?thesis
    proof (cases "0 < i")
      case True
      with r2 show ?thesis by (simp only: set_mr_step_def Let_def r1 if_True)
    next
      case False
      then show ?thesis by (simp only: set_mr_step_def Let_def r1 if_False)
    qed
  qed
  have "fold (set_cap_step data' ?rc i) [0..<?c] t = fold (set_cap_step data ?rc i) [0..<?c] t"
    by (rule fold_cong) (simp_all add: caps_eq fun_eq_iff)
  moreover have "fold (set_mr_step data' ?rc i) [0..<?m] t' = fold (set_mr_step data ?rc i) [0..<?m] t'" for t'
    by (rule fold_cong) (simp_all add: mrs_eq fun_eq_iff)
  ultimately show ?thesis
    by (simp only: load_transport_def decode_invocation_common(5,6))
qed

lemma invocation_iteration_frame:
  assumes same: "\<forall>w<record_words abi (data off). data' (off + of_nat w) = data (off + of_nat w)"
    and i: "i = 0 \<or> 1 < header_iterations (data off)"
  shows "invocation_iteration abi kern data' (decode_invocation abi data off) idx i st
           = invocation_iteration abi kern data (decode_invocation abi data off) idx i st"
  using load_transport_frame [OF same i]
  by (simp add: invocation_iteration_def iteration_call_def)

lemma first_iterations_frame:
  assumes same: "\<forall>w<record_words abi (data off). data' (off + of_nat w) = data (off + of_nat w)"
    and i: "1 < header_iterations (data off) \<or> (n \<le> 1 \<and> i = 0)"
  shows "first_iterations abi kern data' (decode_invocation abi data off) idx n i st
           = first_iterations abi kern data (decode_invocation abi data off) idx n i st"
  using i
proof (induction n arbitrary: i st)
  case 0
  then show ?case by simp
next
  case (Suc n)
  then have "i = 0 \<or> 1 < header_iterations (data off)" by auto
  then have it: "invocation_iteration abi kern data' (decode_invocation abi data off) idx i st
           = invocation_iteration abi kern data (decode_invocation abi data off) idx i st"
    by (rule invocation_iteration_frame [OF same])
  show ?case
  proof (cases "1 < header_iterations (data off)")
    case True
    with Suc.IH it show ?thesis by (simp split: prod.split outcome.split)
  next
    case False
    with Suc.prems have "n = 0" by simp
    with it show ?thesis by (simp split: prod.split outcome.split)
  qed
qed

lemma perform_invocation_frame:
  assumes same: "\<forall>w<record_words abi (data off). data' (off + of_nat w) = data (off + of_nat w)"
    and n: "header_iterations (data off) < 2 ^ 32"
  shows "perform_invocation abi kern data' off idx st = perform_invocation abi kern data off idx st"
proof -
  let ?rc = "decode_invocation abi data off"
  let ?n = "header_iterations (data off)"
  have rc: "decode_invocation abi data' off = ?rc"
    using same by (rule decode_invocation_frame)
  have un: "unat (iterations ?rc) = ?n"
    by (rule unat_iterations)
  then have lt: "unat (iterations ?rc) < 2 ^ 32"
    using n by simp
  have "1 < ?n \<or> (?n \<le> 1 \<and> (0 :: 32 word) = 0)"
    by auto
  then have "first_iterations abi kern data' ?rc idx ?n 0 st = first_iterations abi kern data ?rc idx ?n 0 st"
    by (rule first_iterations_frame [OF same])
  then have "invocation_loop abi kern data' ?rc idx 0 st = invocation_loop abi kern data ?rc idx 0 st"
    by (simp add: invocation_loop_total [OF lt] un)
  then show ?thesis
    by (simp add: perform_invocation_def Let_def rc)
qed

subsection \<open>The script runner\<close>

lemma run_invocations_Halted:
  assumes "ucast idx < count"
    and "perform_invocation abi kern data off idx st = Some (Halted, st')"
  shows "run_invocations abi kern data count idx off st = Some (Halted, st')"
  using assms by (simp add: run_invocations.simps [of abi kern data count idx off st])

lemma run_invocations_run:
  fixes count :: "64 word"
  assumes wf: "\<forall>j < unat count.
               get_capsUnwrapped abi (header_tag (data (of_nat (record_start abi data j)))) = 0
               \<and> header_iterations (data (of_nat (record_start abi data j))) < 2 ^ 32"
    and small: "unat count < 2 ^ 32"
    and k: "k \<le> unat count"
  shows "\<exists>out st' cs.
           run_invocations abi kern data count (of_nat k) (of_nat (record_start abi data k)) st
             = Some (out, st')
           \<and> calls st' = calls st @ cs
           \<and> length cs \<le> (\<Sum>j = k..<unat count. header_iterations (data (of_nat (record_start abi data j))))
           \<and> (calls_succeed abi kern (kstate st) cs \<longrightarrow>
                 out = Returned (of_nat (record_start abi data (unat count)))
                 \<and> length cs = (\<Sum>j = k..<unat count. header_iterations (data (of_nat (record_start abi data j))))
                 \<and> console st' = console st)
           \<and> (\<not> calls_succeed abi kern (kstate st) cs \<longrightarrow> out = Halted)"
  using k
proof (induction "unat count - k" arbitrary: k st)
  case 0
  then have eq: "k = unat count" by simp
  have "k < 2 ^ 32"
    using small eq by simp
  then have "unat (of_nat k :: 32 word) = k"
    by (rule unat_of_nat_32)
  with eq have "\<not> ucast (of_nat k :: 32 word) < count"
    by (simp only: ucast_less_iff)
  then have "run_invocations abi kern data count (of_nat k) (of_nat (record_start abi data k)) st
      = Some (Returned (of_nat (record_start abi data k)), st)"
    by (simp add: run_invocations.simps [of abi kern data count "of_nat k" _ st])
  with eq show ?case by (simp add: calls_succeed_Nil)
next
  case (Suc n)
  then have lt: "k < unat count" by simp
  let ?off = "of_nat (record_start abi data k) :: 32 word"
  let ?N = "\<lambda>j. header_iterations (data (of_nat (record_start abi data j)))"
  have "k < 2 ^ 32"
    using small lt by simp
  then have "unat (of_nat k :: 32 word) = k"
    by (rule unat_of_nat_32)
  with lt have less: "ucast (of_nat k :: 32 word) < count"
    by (simp only: ucast_less_iff)
  from wf lt have w: "get_capsUnwrapped abi (header_tag (data ?off)) = 0"
      "header_iterations (data ?off) < 2 ^ 32"
    by simp_all
  obtain out1 st1 cs1 where p:
      "perform_invocation abi kern data ?off (of_nat k) st = Some (out1, st1)"
      "calls st1 = calls st @ cs1"
      "kstate st1 = kernel_after kern (kstate st) cs1"
      "length cs1 \<le> ?N k"
      "out1 \<noteq> Halted \<longrightarrow>
         out1 = Returned (?off + of_nat (record_words abi (data ?off)))
         \<and> length cs1 = ?N k \<and> console st1 = console st"
      "get_capsUnwrapped abi (header_tag (data ?off)) = 0 \<and> calls_succeed abi kern (kstate st) cs1
         \<longrightarrow> out1 \<noteq> Halted"
      "\<not> calls_succeed abi kern (kstate st) cs1 \<longrightarrow> out1 = Halted"
    using perform_invocation_run [of data ?off abi kern "of_nat k" st] w(2) by blast
  have split_sum: "(\<Sum>j = k..<unat count. ?N j) = ?N k + (\<Sum>j = Suc k..<unat count. ?N j)"
    using lt by (simp add: sum.atLeast_Suc_lessThan)
  show ?case
  proof (cases "out1 = Halted")
    case True
    with less p(1) have "run_invocations abi kern data count (of_nat k) ?off st = Some (Halted, st1)"
      by (simp add: run_invocations_Halted)
    moreover have "\<not> calls_succeed abi kern (kstate st) cs1"
      using True p(6) w(1) by blast
    moreover have "length cs1 \<le> (\<Sum>j = k..<unat count. ?N j)"
      using p(4) split_sum by simp
    ultimately show ?thesis
      using p(2) by blast
  next
    case False
    with p(5,7) have o1: "out1 = Returned (?off + of_nat (record_words abi (data ?off)))"
      and l1: "length cs1 = ?N k" and c1: "console st1 = console st"
      and s1: "calls_succeed abi kern (kstate st) cs1"
      by blast+
    have next_off: "?off + of_nat (record_words abi (data ?off))
                      = (of_nat (record_start abi data (Suc k)) :: 32 word)"
      by simp
    have next_idx: "(of_nat k :: 32 word) + 1 = of_nat (Suc k)"
      by simp
    have "n = unat count - Suc k" "Suc k \<le> unat count"
      using Suc.hyps(2) lt by simp_all
    from Suc.hyps(1) [OF this, of st1] obtain out st' cs2 where r:
        "run_invocations abi kern data count (of_nat (Suc k)) (of_nat (record_start abi data (Suc k))) st1
           = Some (out, st')"
        "calls st' = calls st1 @ cs2"
        "length cs2 \<le> (\<Sum>j = Suc k..<unat count. ?N j)"
        "calls_succeed abi kern (kstate st1) cs2 \<longrightarrow>
           out = Returned (of_nat (record_start abi data (unat count)))
           \<and> length cs2 = (\<Sum>j = Suc k..<unat count. ?N j)
           \<and> console st' = console st1"
        "\<not> calls_succeed abi kern (kstate st1) cs2 \<longrightarrow> out = Halted"
      by blast
    have run: "run_invocations abi kern data count (of_nat k) ?off st = Some (out, st')"
      using less p(1) o1 r(1)
      by (simp only: run_invocations.simps [of abi kern data count "of_nat k" ?off st]
            next_off next_idx if_True option.case prod.case outcome.case)
    have both: "calls_succeed abi kern (kstate st) (cs1 @ cs2) \<longleftrightarrow> calls_succeed abi kern (kstate st1) cs2"
      using s1 p(3) by (simp add: calls_succeed_append)
    have "calls st' = calls st @ (cs1 @ cs2)"
      using r(2) p(2) by simp
    moreover have "length (cs1 @ cs2) \<le> (\<Sum>j = k..<unat count. ?N j)"
      using l1 r(3) split_sum by simp
    moreover have "calls_succeed abi kern (kstate st) (cs1 @ cs2) \<longrightarrow>
                 out = Returned (of_nat (record_start abi data (unat count)))
                 \<and> length (cs1 @ cs2) = (\<Sum>j = k..<unat count. ?N j)
                 \<and> console st' = console st"
      using both r(4) l1 c1 split_sum by simp
    moreover have "\<not> calls_succeed abi kern (kstate st) (cs1 @ cs2) \<longrightarrow> out = Halted"
      using both r(5) by simp
    ultimately show ?thesis
      using run by blast
  qed
qed

subsection \<open>The manifest checker\<close>

lemma check_regions_from:
  assumes d1: "unat (cap_end ui - cap_start ui) \<le> MAX_UNTYPED_REGIONS"
    and d2: "unat (cap_end ui - cap_start ui) \<le> untypedList_size bi"
    and i: "unat i \<le> unat (cap_end ui - cap_start ui)"
  shows "check_regions ui bi i =
           In_Bounds (\<forall>j. unat i \<le> j \<and> j < unat (cap_end ui - cap_start ui) \<longrightarrow> \<not> region_differs ui bi j)"
  using i
proof (induction "unat (cap_end ui - cap_start ui) - unat i" arbitrary: i)
  case 0
  then have "\<not> ucast i < cap_end ui - cap_start ui"
    by (simp add: word_less_nat_alt unsigned_ucast_eq take_bit_nat_eq_self
          order_less_trans [OF unsigned_less [of i]])
  moreover from 0 have "(\<forall>j. unat i \<le> j \<and> j < unat (cap_end ui - cap_start ui)
                              \<longrightarrow> \<not> region_differs ui bi j) = True"
    by auto
  ultimately show ?case
    by (simp only: check_regions.simps [of ui bi i] if_False)
next
  case (Suc n)
  let ?d = "unat (cap_end ui - cap_start ui)"
  from Suc have lt: "unat i < ?d" by simp
  then have less: "ucast i < cap_end ui - cap_start ui"
    by (simp add: word_less_nat_alt unsigned_ucast_eq take_bit_nat_eq_self
          order_less_trans [OF unsigned_less [of i]])
  from lt d1 d2 have r1: "array_read MAX_UNTYPED_REGIONS (regions ui) (unat i) = In_Bounds (regions ui (unat i))"
    and r2: "array_read (untypedList_size bi) (untypedList bi) (unat i) = In_Bounds (untypedList bi (unat i))"
    by (simp_all add: array_read_def)
  from lt d1 have "unat i < 256" by (simp add: MAX_UNTYPED_REGIONS_def)
  then have succ: "unat (i + 1) = unat i + 1"
    by (simp add: unat_word_ariths)
  show ?case
  proof (cases "region_differs ui bi (unat i)")
    case True
    then have "check_regions ui bi i = In_Bounds False"
      using less r1 r2 by (auto simp add: check_regions.simps [of ui bi i] region_differs_def)
    moreover have "\<not> (\<forall>j. unat i \<le> j \<and> j < ?d \<longrightarrow> \<not> region_differs ui bi j)"
      using True lt by auto
    ultimately show ?thesis by simp
  next
    case False
    then have step: "check_regions ui bi i = check_regions ui bi (i + 1)"
      using less r1 r2 by (simp add: check_regions.simps [of ui bi i] region_differs_def)
    have "n = ?d - unat (i + 1)" "unat (i + 1) \<le> ?d"
      using Suc.hyps(2) lt succ by simp_all
    then have "check_regions ui bi (i + 1) =
           In_Bounds (\<forall>j. unat (i + 1) \<le> j \<and> j < ?d \<longrightarrow> \<not> region_differs ui bi j)"
      by (rule Suc.hyps(1))
    moreover have "(\<forall>j. unat (i + 1) \<le> j \<and> j < ?d \<longrightarrow> \<not> region_differs ui bi j)
        \<longleftrightarrow> (\<forall>j. unat i \<le> j \<and> j < ?d \<longrightarrow> \<not> region_differs ui bi j)"
    proof
      assume a: "\<forall>j. unat (i + 1) \<le> j \<and> j < ?d \<longrightarrow> \<not> region_differs ui bi j"
      show "\<forall>j. unat i \<le> j \<and> j < ?d \<longrightarrow> \<not> region_differs ui bi j"
      proof (intro allI impI)
        fix j assume j: "unat i \<le> j \<and> j < ?d"
        show "\<not> region_differs ui bi j"
        proof (cases "j = unat i")
          case True
          with False show ?thesis by simp
        next
          case False
          with j succ have "unat (i + 1) \<le> j \<and> j < ?d" by simp
          with a show ?thesis by blast
        qed
      qed
    next
      assume "\<forall>j. unat i \<le> j \<and> j < ?d \<longrightarrow> \<not> region_differs ui bi j"
      then show "\<forall>j. unat (i + 1) \<le> j \<and> j < ?d \<longrightarrow> \<not> region_differs ui bi j"
        using succ by simp
    qed
    ultimately show ?thesis using step by simp
  qed
qed

subsection \<open>The concrete inputs\<close>

lemmas example_header_defs = example_record_def endless_record_def example_stream_def
  unwrapped_record_def
  buffer_of_def sel4_msginfo_def header_iterations_def
  header_tag_def header_cap_count_def header_mr_count_def record_words_def record_header_def

lemma ok_kernel_succeeds:
  "\<forall>k c. reply_result sel4_msginfo (fst (fst (ok_kernel k c))) = seL4_NoError"
  by (simp add: ok_kernel_def sel4_msginfo_def reply_result_def seL4_NoError_def)

lemma ok_kernel_calls_succeed: "calls_succeed sel4_msginfo ok_kernel k cs"
  by (induction cs arbitrary: k)
    (simp_all add: calls_succeed_Nil calls_succeed_Cons ok_kernel_def sel4_msginfo_def
      reply_result_def seL4_NoError_def)

lemma failing_kernel_calls_succeed:
  "k + length cs \<le> n \<Longrightarrow> calls_succeed sel4_msginfo (failing_kernel n err) k cs"
  by (induction cs arbitrary: k)
    (simp_all add: calls_succeed_Nil calls_succeed_Cons failing_kernel_def sel4_msginfo_def
      reply_result_def seL4_NoError_def)

lemma example_record_targets:
  "issued_targets (perform_invocation sel4_msginfo ok_kernel (buffer_of example_record) 0 0 idle_state)
     = Some [100, 110, 120]"
  by code_simp

lemma endless_header_never_returns:
  "perform_invocation sel4_msginfo ok_kernel (buffer_of endless_record) 0 0 idle_state = None"
proof -
  let ?rc = "decode_invocation sel4_msginfo (buffer_of endless_record) 0"
  have "iterations ?rc = 0x100000000"
    by (simp add: iterations_decode buffer_of_def endless_record_def)
  then have "unat (iterations ?rc) = 2 ^ 32" by simp
  with ok_kernel_succeeds
  have "invocation_loop sel4_msginfo ok_kernel (buffer_of endless_record) ?rc 0 0 idle_state = None"
    by (rule invocation_loop_never_returns)
  moreover have "get_capsUnwrapped sel4_msginfo (tag ?rc) = 0"
    by (simp add: decode_invocation_common header_tag_def buffer_of_def endless_record_def
          sel4_msginfo_def)
  ultimately show ?thesis
    by (simp add: perform_invocation_def Let_def)
qed

section \<open>The claims\<close>

text \<open>
  Claim C1. For a record whose iteration count \<open>N\<close> (the high half of the header plus one, so
  at most \<open>2^32\<close>) is greater than 1, and for every \<open>n \<le> N\<close>: the loop of
  \<^verbatim>\<open>perform_invocation\<close> begins with the \<open>n\<close> rounds \<open>first_iterations\<close>; it halts where
  they halt, and otherwise goes on from \<^verbatim>\<open>i = n\<close> in the state they leave. The call at
  position \<open>i\<close> among the calls these rounds issue has the target \<open>base + stride * i\<close>, every
  capability slot below the capability count holds its \<open>base + stride * i\<close>, and every
  message word below the message count holds its \<open>base + stride * i\<close>, all in 64-bit
  arithmetic; the call at position 0 carries the base values. The rounds issue \<open>n\<close> calls
  when the kernel answers each of them with success; otherwise they end halted, and the
  call answered otherwise is the last one issued. For \<open>n = N\<close> below \<open>2^32\<close> and a tag
  without unwrapped capabilities, \<^verbatim>\<open>perform_invocation\<close> ends where the rounds end: with
  \<open>N\<close> calls issued and the offset past the record returned when every call succeeds. (For
  \<open>N = 2^32\<close> the 32-bit counter is back at 0 after the \<open>N\<close> rounds, and the loop goes on.)
\<close>

theorem iterated_call_values:
  assumes "1 < header_iterations (data off)" and "n \<le> header_iterations (data off)"
  shows "\<exists>out st' cs.
           first_iterations abi kern data (decode_invocation abi data off) idx n 0 st = (out, st')
           \<and> invocation_loop abi kern data (decode_invocation abi data off) idx 0 st
               = (case out of
                    Halted \<Rightarrow> Some (Halted, st')
                  | Returned u \<Rightarrow>
                      invocation_loop abi kern data (decode_invocation abi data off) idx (of_nat n) st')
           \<and> (n = header_iterations (data off) \<and> n < 2 ^ 32
                 \<and> get_capsUnwrapped abi (header_tag (data off)) = 0 \<longrightarrow>
                 perform_invocation abi kern data off idx st
                   = Some (case out of
                             Halted \<Rightarrow> Halted
                           | Returned u \<Rightarrow> Returned (off + of_nat (record_words abi (data off))),
                           st'))
           \<and> (out = Halted \<and> get_capsUnwrapped abi (header_tag (data off)) = 0 \<longrightarrow>
                 perform_invocation abi kern data off idx st = Some (Halted, st'))
           \<and> (get_capsUnwrapped abi (header_tag (data off)) \<noteq> 0 \<longrightarrow>
                 (\<exists>st''. perform_invocation abi kern data off idx st = Some (Halted, st'')
                         \<and> calls st'' = calls st))
           \<and> calls st' = calls st @ cs
           \<and> length cs \<le> n
           \<and> (calls_succeed abi kern (kstate st) cs \<longrightarrow> out = Returned () \<and> length cs = n)
           \<and> (\<not> calls_succeed abi kern (kstate st) cs \<longrightarrow>
                 out = Halted \<and> cs \<noteq> [] \<and> calls_succeed abi kern (kstate st) (butlast cs))
           \<and> (\<forall>i<length cs.
                 call_service (cs ! i) = record_target data off + record_target_stride abi data off * of_nat i
                 \<and> (\<forall>j<header_cap_count abi (data off).
                       caps (call_xport (cs ! i)) (of_nat j)
                         = record_cap data off j + record_cap_stride abi data off j * of_nat i)
                 \<and> (\<forall>j<header_mr_count abi (data off).
                       message_word (call_xport (cs ! i)) (of_nat j)
                         = record_mr abi data off j + record_mr_stride abi data off j * of_nat i))
           \<and> (cs \<noteq> [] \<longrightarrow>
                 call_service (cs ! 0) = record_target data off
                 \<and> (\<forall>j<header_cap_count abi (data off).
                       caps (call_xport (cs ! 0)) (of_nat j) = record_cap data off j)
                 \<and> (\<forall>j<header_mr_count abi (data off).
                       message_word (call_xport (cs ! 0)) (of_nat j) = record_mr abi data off j))"
proof -
  let ?rc = "decode_invocation abi data off"
  let ?N = "header_iterations (data off)"
  let ?r = "first_iterations abi kern data ?rc idx n 0 st"
  obtain out st' where r: "?r = (out, st')"
    by (cases ?r)
  obtain cs where cs: "calls st' = calls st @ cs"
      "length cs \<le> n"
      "\<forall>m<length cs. \<exists>t. cs ! m = iteration_call data ?rc (0 + of_nat m) t"
      "out = Returned () \<longrightarrow> length cs = n \<and> calls_succeed abi kern (kstate st) cs"
      "out = Halted \<longrightarrow>
         cs \<noteq> [] \<and> calls_succeed abi kern (kstate st) (butlast cs)
         \<and> \<not> calls_succeed abi kern (kstate st) cs"
    using first_iterations_run [of abi kern data ?rc idx n 0 st] r by auto
  have un: "unat (iterations ?rc) = ?N"
    by (rule unat_iterations)
  have N: "?N \<le> 2 ^ 32"
    using unat_drop_bit_32_less [of "data off"] by (simp add: header_iterations_def)
  have "unat (0 :: 32 word) + n \<le> unat (iterations ?rc)"
    using assms(2) un by simp
  then have "invocation_loop abi kern data ?rc idx 0 st =
           (case ?r of
              (Halted, st') \<Rightarrow> Some (Halted, st')
            | (Returned u, st') \<Rightarrow> invocation_loop abi kern data ?rc idx (of_nat n) st')"
    by (rule invocation_loop_unroll) simp
  then have link: "invocation_loop abi kern data ?rc idx 0 st
               = (case out of
                    Halted \<Rightarrow> Some (Halted, st')
                  | Returned u \<Rightarrow> invocation_loop abi kern data ?rc idx (of_nat n) st')"
    by (simp add: r split: outcome.split)
  have ends: "perform_invocation abi kern data off idx st
                   = Some (case out of
                             Halted \<Rightarrow> Halted
                           | Returned u \<Rightarrow> Returned (off + of_nat (record_words abi (data off))),
                           st')"
    if "n = ?N" "n < 2 ^ 32" "get_capsUnwrapped abi (header_tag (data off)) = 0"
  proof -
    have "unat (iterations ?rc) < 2 ^ 32"
      using that(1,2) un by simp
    then have "invocation_loop abi kern data ?rc idx 0 st
               = Some (first_iterations abi kern data ?rc idx (unat (iterations ?rc)) 0 st)"
      by (rule invocation_loop_total)
    then have "invocation_loop abi kern data ?rc idx 0 st = Some (out, st')"
      using that(1) r by (simp add: un)
    with that(3) show ?thesis
      by (simp add: perform_invocation_def Let_def decode_invocation_common
            next_offset_record_words split: outcome.split)
  qed
  have halts: "out = Halted \<and> get_capsUnwrapped abi (header_tag (data off)) = 0 \<longrightarrow>
                 perform_invocation abi kern data off idx st = Some (Halted, st')"
    using link by (simp add: perform_invocation_def Let_def decode_invocation_common)
  have unwrapped: "get_capsUnwrapped abi (header_tag (data off)) \<noteq> 0 \<longrightarrow>
                 (\<exists>st''. perform_invocation abi kern data off idx st = Some (Halted, st'')
                         \<and> calls st'' = calls st)"
    by (simp add: perform_invocation_unwrapped)
  have out_cases: "out = Returned () \<or> out = Halted"
    by (cases out) simp_all
  have succ: "calls_succeed abi kern (kstate st) cs \<longrightarrow> out = Returned () \<and> length cs = n"
    using cs(4,5) out_cases by blast
  have nsucc: "\<not> calls_succeed abi kern (kstate st) cs \<longrightarrow>
                 out = Halted \<and> cs \<noteq> [] \<and> calls_succeed abi kern (kstate st) (butlast cs)"
    using cs(4,5) out_cases by blast
  have vals: "call_service (cs ! i) = record_target data off + record_target_stride abi data off * of_nat i
                 \<and> (\<forall>j<header_cap_count abi (data off).
                       caps (call_xport (cs ! i)) (of_nat j)
                         = record_cap data off j + record_cap_stride abi data off j * of_nat i)
                 \<and> (\<forall>j<header_mr_count abi (data off).
                       message_word (call_xport (cs ! i)) (of_nat j)
                         = record_mr abi data off j + record_mr_stride abi data off j * of_nat i)"
    if "i < length cs" for i
  proof -
    from that cs(2) assms(2) N have i: "i < 2 ^ 32" by simp
    from that cs(3) obtain t where t: "cs ! i = iteration_call data ?rc (of_nat i) t" by auto
    show ?thesis
      unfolding t
      using iteration_call_service [of data off i abi t]
        iteration_call_caps [of data off i _ abi t]
        iteration_call_message_word [of data off i _ abi t]
        assms(1) i
      by simp
  qed
  have first: "call_service (cs ! 0) = record_target data off
                 \<and> (\<forall>j<header_cap_count abi (data off).
                       caps (call_xport (cs ! 0)) (of_nat j) = record_cap data off j)
                 \<and> (\<forall>j<header_mr_count abi (data off).
                       message_word (call_xport (cs ! 0)) (of_nat j) = record_mr abi data off j)"
    if "cs \<noteq> []"
    using vals [of 0] that by simp
  have ends': "n = ?N \<and> n < 2 ^ 32 \<and> get_capsUnwrapped abi (header_tag (data off)) = 0 \<longrightarrow>
                 perform_invocation abi kern data off idx st
                   = Some (case out of
                             Halted \<Rightarrow> Halted
                           | Returned u \<Rightarrow> Returned (off + of_nat (record_words abi (data off))),
                           st')"
    using ends by blast
  have vals': "\<forall>i<length cs.
                 call_service (cs ! i) = record_target data off + record_target_stride abi data off * of_nat i
                 \<and> (\<forall>j<header_cap_count abi (data off).
                       caps (call_xport (cs ! i)) (of_nat j)
                         = record_cap data off j + record_cap_stride abi data off j * of_nat i)
                 \<and> (\<forall>j<header_mr_count abi (data off).
                       message_word (call_xport (cs ! i)) (of_nat j)
                         = record_mr abi data off j + record_mr_stride abi data off j * of_nat i)"
    using vals by blast
  have first': "cs \<noteq> [] \<longrightarrow>
                 call_service (cs ! 0) = record_target data off
                 \<and> (\<forall>j<header_cap_count abi (data off).
                       caps (call_xport (cs ! 0)) (of_nat j) = record_cap data off j)
                 \<and> (\<forall>j<header_mr_count abi (data off).
                       message_word (call_xport (cs ! 0)) (of_nat j) = record_mr abi data off j)"
    using first by blast
  show ?thesis
    using r link ends' halts unwrapped cs(1,2) succ nsucc vals' first'
    by (intro exI [of _ out] exI [of _ st'] exI [of _ cs] conjI)
qed

theorem iterated_call_values_witness:
  "1 < header_iterations (buffer_of example_record 0)
   \<and> (3 :: nat) \<le> header_iterations (buffer_of example_record 0)
   \<and> (3 :: nat) = header_iterations (buffer_of example_record 0)
   \<and> get_capsUnwrapped sel4_msginfo (header_tag (buffer_of example_record 0)) = 0
   \<and> (\<exists>st' cs.
         perform_invocation sel4_msginfo ok_kernel (buffer_of example_record) 0 0 idle_state
           = Some (Returned 13, st')
         \<and> calls st' = calls idle_state @ cs
         \<and> calls_succeed sel4_msginfo ok_kernel (kstate idle_state) cs
         \<and> map call_service cs = [100, 110, 120]
         \<and> map (\<lambda>c. message_word (call_xport c) 4) cs = [5, 6, 7])
   \<and> 1 < header_iterations (buffer_of endless_record 0)
   \<and> header_iterations (buffer_of endless_record 0) = 2 ^ 32
   \<and> (2 :: nat) \<le> header_iterations (buffer_of endless_record 0)
   \<and> (\<exists>st' cs.
         first_iterations sel4_msginfo ok_kernel (buffer_of endless_record)
             (decode_invocation sel4_msginfo (buffer_of endless_record) 0) 0 2 0 idle_state
           = (Returned (), st')
         \<and> calls st' = calls idle_state @ cs
         \<and> calls_succeed sel4_msginfo ok_kernel (kstate idle_state) cs
         \<and> map call_service cs = [50, 52]
         \<and> map (\<lambda>c. caps (call_xport c) 0) cs = [9, 10]
         \<and> map (\<lambda>c. message_word (call_xport c) 0) cs = [4, 7])"
proof -
  let ?d = "buffer_of example_record"
  let ?e = "buffer_of endless_record"
  have h1: "1 < header_iterations (?d 0)" and h2: "(3 :: nat) \<le> header_iterations (?d 0)"
    and h3: "(3 :: nat) = header_iterations (?d 0) \<and> (3 :: nat) < 2 ^ 32
             \<and> get_capsUnwrapped sel4_msginfo (header_tag (?d 0)) = 0"
    by (simp_all add: example_header_defs)
  have g1: "1 < header_iterations (?e 0)" and g2: "(2 :: nat) \<le> header_iterations (?e 0)"
    and g3: "header_iterations (?e 0) = 2 ^ 32"
    by (simp_all add: example_header_defs)
  have v: "record_target ?d 0 = 100"
    "record_target_stride sel4_msginfo ?d 0 = 10"
    "(4 :: nat) < header_mr_count sel4_msginfo (?d 0)"
    "record_mr sel4_msginfo ?d 0 4 = 5"
    "record_mr_stride sel4_msginfo ?d 0 4 = 1"
    "(0 :: 32 word) + of_nat (record_words sel4_msginfo (?d 0)) = 13"
    by (simp_all add: example_header_defs record_target_def record_target_stride_def
          record_mr_def record_mr_stride_def)
  have w: "record_target ?e 0 = 50"
    "record_target_stride sel4_msginfo ?e 0 = 2"
    "(0 :: nat) < header_cap_count sel4_msginfo (?e 0)"
    "record_cap ?e 0 0 = 9"
    "record_cap_stride sel4_msginfo ?e 0 0 = 1"
    "(0 :: nat) < header_mr_count sel4_msginfo (?e 0)"
    "record_mr sel4_msginfo ?e 0 0 = 4"
    "record_mr_stride sel4_msginfo ?e 0 0 = 3"
    by (simp_all add: example_header_defs record_target_def record_target_stride_def
          record_cap_def record_cap_stride_def record_mr_def record_mr_stride_def)
  have three: "[0..<3] = [0, 1, 2]" and two: "[0..<2] = [0, 1]"
    by (simp_all add: upt_rec)
  obtain out st' cs where r:
    "3 = header_iterations (?d 0) \<and> (3 :: nat) < 2 ^ 32
       \<and> get_capsUnwrapped sel4_msginfo (header_tag (?d 0)) = 0 \<longrightarrow>
     perform_invocation sel4_msginfo ok_kernel ?d 0 0 idle_state
       = Some (case out of Halted \<Rightarrow> Halted
               | Returned u \<Rightarrow> Returned (0 + of_nat (record_words sel4_msginfo (?d 0))), st')"
    "calls st' = calls idle_state @ cs"
    "calls_succeed sel4_msginfo ok_kernel (kstate idle_state) cs \<longrightarrow> out = Returned () \<and> length cs = 3"
    "\<forall>i<length cs.
        call_service (cs ! i) = record_target ?d 0 + record_target_stride sel4_msginfo ?d 0 * of_nat i
        \<and> (\<forall>j<header_cap_count sel4_msginfo (?d 0).
              caps (call_xport (cs ! i)) (of_nat j)
                = record_cap ?d 0 j + record_cap_stride sel4_msginfo ?d 0 j * of_nat i)
        \<and> (\<forall>j<header_mr_count sel4_msginfo (?d 0).
              message_word (call_xport (cs ! i)) (of_nat j)
                = record_mr sel4_msginfo ?d 0 j + record_mr_stride sel4_msginfo ?d 0 j * of_nat i)"
    using iterated_call_values [of ?d 0 3 sel4_msginfo ok_kernel 0 idle_state, OF h1 h2]
    by (elim exE conjE) (rule that)
  have s: "calls_succeed sel4_msginfo ok_kernel (kstate idle_state) cs"
    by (rule ok_kernel_calls_succeed)
  with r(3) have o: "out = Returned ()" and l: "length cs = 3"
    by simp_all
  from r(1) h3 o v(6) have p: "perform_invocation sel4_msginfo ok_kernel ?d 0 0 idle_state
       = Some (Returned 13, st')"
    by simp
  have vals: "call_service (cs ! i) = 100 + 10 * of_nat i
        \<and> message_word (call_xport (cs ! i)) 4 = 5 + 1 * of_nat i" if "i < length cs" for i
  proof -
    from r(4) that have a: "call_service (cs ! i) = record_target ?d 0
           + record_target_stride sel4_msginfo ?d 0 * of_nat i"
      and b: "\<forall>j<header_mr_count sel4_msginfo (?d 0).
              message_word (call_xport (cs ! i)) (of_nat j)
                = record_mr sel4_msginfo ?d 0 j + record_mr_stride sel4_msginfo ?d 0 j * of_nat i"
      by blast+
    from b v(3) have "message_word (call_xport (cs ! i)) (of_nat 4)
                = record_mr sel4_msginfo ?d 0 4 + record_mr_stride sel4_msginfo ?d 0 4 * of_nat i"
      by blast
    with a v show ?thesis by simp
  qed
  have m1: "map call_service cs = [100, 110, 120]"
    using vals l by (simp add: map_by_index [of call_service cs] three)
  have m2: "map (\<lambda>c. message_word (call_xport c) 4) cs = [5, 6, 7]"
    using vals l by (simp add: map_by_index [of "\<lambda>c. message_word (call_xport c) 4" cs] three)
  obtain out2 st2 cs2 where q:
    "first_iterations sel4_msginfo ok_kernel ?e (decode_invocation sel4_msginfo ?e 0) 0 2 0 idle_state
       = (out2, st2)"
    "calls st2 = calls idle_state @ cs2"
    "calls_succeed sel4_msginfo ok_kernel (kstate idle_state) cs2
       \<longrightarrow> out2 = Returned () \<and> length cs2 = 2"
    "\<forall>i<length cs2.
        call_service (cs2 ! i) = record_target ?e 0 + record_target_stride sel4_msginfo ?e 0 * of_nat i
        \<and> (\<forall>j<header_cap_count sel4_msginfo (?e 0).
              caps (call_xport (cs2 ! i)) (of_nat j)
                = record_cap ?e 0 j + record_cap_stride sel4_msginfo ?e 0 j * of_nat i)
        \<and> (\<forall>j<header_mr_count sel4_msginfo (?e 0).
              message_word (call_xport (cs2 ! i)) (of_nat j)
                = record_mr sel4_msginfo ?e 0 j + record_mr_stride sel4_msginfo ?e 0 j * of_nat i)"
    using iterated_call_values [of ?e 0 2 sel4_msginfo ok_kernel 0 idle_state, OF g1 g2]
    by (elim exE conjE) (rule that)
  have s2: "calls_succeed sel4_msginfo ok_kernel (kstate idle_state) cs2"
    by (rule ok_kernel_calls_succeed)
  with q(3) have o2: "out2 = Returned ()" and l2: "length cs2 = 2"
    by simp_all
  have vals2: "call_service (cs2 ! i) = 50 + 2 * of_nat i
        \<and> caps (call_xport (cs2 ! i)) 0 = 9 + 1 * of_nat i
        \<and> message_word (call_xport (cs2 ! i)) 0 = 4 + 3 * of_nat i" if "i < length cs2" for i
  proof -
    from q(4) that have a: "call_service (cs2 ! i) = record_target ?e 0
           + record_target_stride sel4_msginfo ?e 0 * of_nat i"
      and b: "\<forall>j<header_cap_count sel4_msginfo (?e 0).
              caps (call_xport (cs2 ! i)) (of_nat j)
                = record_cap ?e 0 j + record_cap_stride sel4_msginfo ?e 0 j * of_nat i"
      and c: "\<forall>j<header_mr_count sel4_msginfo (?e 0).
              message_word (call_xport (cs2 ! i)) (of_nat j)
                = record_mr sel4_msginfo ?e 0 j + record_mr_stride sel4_msginfo ?e 0 j * of_nat i"
      by blast+
    from b w(3) have b0: "caps (call_xport (cs2 ! i)) (of_nat 0)
                = record_cap ?e 0 0 + record_cap_stride sel4_msginfo ?e 0 0 * of_nat i"
      by blast
    from c w(6) have c0: "message_word (call_xport (cs2 ! i)) (of_nat 0)
                = record_mr sel4_msginfo ?e 0 0 + record_mr_stride sel4_msginfo ?e 0 0 * of_nat i"
      by blast
    from a b0 c0 w show ?thesis by simp
  qed
  have n1: "map call_service cs2 = [50, 52]"
    using vals2 l2 by (simp add: map_by_index [of call_service cs2] two)
  have n2: "map (\<lambda>c. caps (call_xport c) 0) cs2 = [9, 10]"
    using vals2 l2 by (simp add: map_by_index [of "\<lambda>c. caps (call_xport c) 0" cs2] two)
  have n3: "map (\<lambda>c. message_word (call_xport c) 0) cs2 = [4, 7]"
    using vals2 l2 by (simp add: map_by_index [of "\<lambda>c. message_word (call_xport c) 0" cs2] two)
  have A: "\<exists>st' cs.
         perform_invocation sel4_msginfo ok_kernel ?d 0 0 idle_state = Some (Returned 13, st')
         \<and> calls st' = calls idle_state @ cs
         \<and> calls_succeed sel4_msginfo ok_kernel (kstate idle_state) cs
         \<and> map call_service cs = [100, 110, 120]
         \<and> map (\<lambda>c. message_word (call_xport c) 4) cs = [5, 6, 7]"
    using p r(2) s m1 m2 by (intro exI [of _ st'] exI [of _ cs] conjI)
  have B: "\<exists>st' cs.
         first_iterations sel4_msginfo ok_kernel ?e (decode_invocation sel4_msginfo ?e 0) 0 2 0 idle_state
           = (Returned (), st')
         \<and> calls st' = calls idle_state @ cs
         \<and> calls_succeed sel4_msginfo ok_kernel (kstate idle_state) cs
         \<and> map call_service cs = [50, 52]
         \<and> map (\<lambda>c. caps (call_xport c) 0) cs = [9, 10]
         \<and> map (\<lambda>c. message_word (call_xport c) 0) cs = [4, 7]"
    using q(1,2) o2 s2 n1 n2 n3 by (intro exI [of _ st2] exI [of _ cs2] conjI) simp_all
  from h3 have h4: "(3 :: nat) = header_iterations (?d 0)"
    and h5: "get_capsUnwrapped sel4_msginfo (header_tag (?d 0)) = 0"
    by blast+
  from h1 h2 h4 h5 g1 g2 g3 A B show ?thesis
    by (intro conjI)
qed

text \<open>
  Claim C2. For a stream of \<open>count\<close> records in which no tag reports unwrapped capabilities,
  every iteration count can be reached by the loop counter and the records fit below offset
  \<open>2^32\<close>: the script runner started at offset 0 ends, with at most as many calls issued as
  the iteration counts add up to. When every call it issued returned success, it returns
  the offset just past record \<open>count - 1\<close>, has issued exactly that many calls and has
  printed nothing; otherwise it halts. The executor called on record \<open>k\<close> at its start
  ends likewise: when every call it issued returned success it returns the start of record
  \<open>k + 1\<close>, which is its own start plus \<open>2 + cap_count + mr_count\<close> words for one iteration
  and plus a further \<open>1 + cap_count + mr_count\<close> words for more; and what it does depends on
  no word outside the record.
\<close>

theorem script_runner_consumes_records:
  fixes count :: "64 word"
  assumes wf: "\<forall>j < unat count.
               get_capsUnwrapped abi (header_tag (record_header abi data j)) = 0
               \<and> header_iterations (record_header abi data j) < 2 ^ 32"
    and fits: "record_start abi data (unat count) < 2 ^ 32"
  shows "(\<exists>out st' cs. run_script abi kern data count st = Some (out, st')
            \<and> calls st' = calls st @ cs
            \<and> length cs \<le> (\<Sum>j < unat count. header_iterations (record_header abi data j))
            \<and> (calls_succeed abi kern (kstate st) cs \<longrightarrow>
                  (\<exists>off. out = Returned off \<and> unat off = record_start abi data (unat count))
                  \<and> length cs = (\<Sum>j < unat count. header_iterations (record_header abi data j))
                  \<and> console st' = console st)
            \<and> (\<not> calls_succeed abi kern (kstate st) cs \<longrightarrow> out = Halted))
         \<and> (\<forall>k < unat count. \<forall>s. \<exists>out s' cs.
               perform_invocation abi kern data (of_nat (record_start abi data k)) (of_nat k) s
                 = Some (out, s')
               \<and> calls s' = calls s @ cs
               \<and> length cs \<le> header_iterations (record_header abi data k)
               \<and> (calls_succeed abi kern (kstate s) cs \<longrightarrow>
                     (\<exists>off'. out = Returned off'
                        \<and> unat off' = record_start abi data k + record_words abi (record_header abi data k)
                        \<and> unat off' = record_start abi data (Suc k))
                     \<and> length cs = header_iterations (record_header abi data k)
                     \<and> console s' = console s)
               \<and> (\<not> calls_succeed abi kern (kstate s) cs \<longrightarrow> out = Halted)
               \<and> (\<forall>data'.
                     (\<forall>w < record_words abi (record_header abi data k).
                        data' (of_nat (record_start abi data k) + of_nat w)
                          = data (of_nat (record_start abi data k) + of_nat w))
                     \<longrightarrow> perform_invocation abi kern data' (of_nat (record_start abi data k)) (of_nat k) s
                           = perform_invocation abi kern data (of_nat (record_start abi data k)) (of_nat k) s))"
proof (intro conjI allI impI)
  have "2 * unat count \<le> record_start abi data (unat count)"
    by (rule record_start_ge)
  with fits have small: "unat count < 2 ^ 32" by simp
  have wf': "\<forall>j < unat count.
               get_capsUnwrapped abi (header_tag (data (of_nat (record_start abi data j)))) = 0
               \<and> header_iterations (data (of_nat (record_start abi data j))) < 2 ^ 32"
    using wf by (simp add: record_header_def)
  have "0 \<le> unat count" by simp
  from run_invocations_run [OF wf' small this, of kern st]
  obtain out st' cs where r:
      "run_invocations abi kern data count 0 0 st = Some (out, st')"
      "calls st' = calls st @ cs"
      "length cs \<le> (\<Sum>j = 0..<unat count. header_iterations (data (of_nat (record_start abi data j))))"
      "calls_succeed abi kern (kstate st) cs \<longrightarrow>
         out = Returned (of_nat (record_start abi data (unat count)))
         \<and> length cs = (\<Sum>j = 0..<unat count. header_iterations (data (of_nat (record_start abi data j))))
         \<and> console st' = console st"
      "\<not> calls_succeed abi kern (kstate st) cs \<longrightarrow> out = Halted"
    by auto
  have u: "unat (of_nat (record_start abi data (unat count)) :: 32 word) = record_start abi data (unat count)"
    using fits by (rule unat_of_nat_32)
  have a: "run_script abi kern data count st = Some (out, st')"
    using r(1) by (simp add: run_script_def)
  have b: "length cs \<le> (\<Sum>j < unat count. header_iterations (record_header abi data j))"
    using r(3) by (simp add: record_header_def atLeast0LessThan)
  have c: "calls_succeed abi kern (kstate st) cs \<longrightarrow>
                  (\<exists>off. out = Returned off \<and> unat off = record_start abi data (unat count))
                  \<and> length cs = (\<Sum>j < unat count. header_iterations (record_header abi data j))
                  \<and> console st' = console st"
    using r(4) u by (simp add: record_header_def atLeast0LessThan)
  show "\<exists>out st' cs. run_script abi kern data count st = Some (out, st')
            \<and> calls st' = calls st @ cs
            \<and> length cs \<le> (\<Sum>j < unat count. header_iterations (record_header abi data j))
            \<and> (calls_succeed abi kern (kstate st) cs \<longrightarrow>
                  (\<exists>off. out = Returned off \<and> unat off = record_start abi data (unat count))
                  \<and> length cs = (\<Sum>j < unat count. header_iterations (record_header abi data j))
                  \<and> console st' = console st)
            \<and> (\<not> calls_succeed abi kern (kstate st) cs \<longrightarrow> out = Halted)"
    using a r(2) b c r(5) by (intro exI [of _ out] exI [of _ st'] exI [of _ cs] conjI)
next
  fix k s
  assume k: "k < unat count"
  let ?off = "of_nat (record_start abi data k) :: 32 word"
  from wf k have w: "get_capsUnwrapped abi (header_tag (data ?off)) = 0"
      "header_iterations (data ?off) < 2 ^ 32"
    by (simp_all add: record_header_def)
  obtain out s' cs where p:
      "perform_invocation abi kern data ?off (of_nat k) s = Some (out, s')"
      "calls s' = calls s @ cs"
      "length cs \<le> header_iterations (data ?off)"
      "out \<noteq> Halted \<longrightarrow>
         out = Returned (?off + of_nat (record_words abi (data ?off)))
         \<and> length cs = header_iterations (data ?off) \<and> console s' = console s"
      "get_capsUnwrapped abi (header_tag (data ?off)) = 0 \<and> calls_succeed abi kern (kstate s) cs
         \<longrightarrow> out \<noteq> Halted"
      "\<not> calls_succeed abi kern (kstate s) cs \<longrightarrow> out = Halted"
    using perform_invocation_run [of data ?off abi kern "of_nat k" s] w(2) by blast
  have eq: "?off + of_nat (record_words abi (data ?off)) = (of_nat (record_start abi data (Suc k)) :: 32 word)"
    by simp
  have "record_start abi data (Suc k) \<le> record_start abi data (unat count)"
    using k by (intro record_start_mono) simp
  with fits have "record_start abi data (Suc k) < 2 ^ 32" by simp
  then have u: "unat (of_nat (record_start abi data (Suc k)) :: 32 word) = record_start abi data (Suc k)"
    by (rule unat_of_nat_32)
  have b: "length cs \<le> header_iterations (record_header abi data k)"
    using p(3) by (simp add: record_header_def)
  have c: "calls_succeed abi kern (kstate s) cs \<longrightarrow>
                     (\<exists>off'. out = Returned off'
                        \<and> unat off' = record_start abi data k + record_words abi (record_header abi data k)
                        \<and> unat off' = record_start abi data (Suc k))
                     \<and> length cs = header_iterations (record_header abi data k)
                     \<and> console s' = console s"
  proof
    assume "calls_succeed abi kern (kstate s) cs"
    with p(4,5) w(1) have "out = Returned (?off + of_nat (record_words abi (data ?off)))"
      and "length cs = header_iterations (data ?off)" and "console s' = console s"
      by blast+
    then show "(\<exists>off'. out = Returned off'
                        \<and> unat off' = record_start abi data k + record_words abi (record_header abi data k)
                        \<and> unat off' = record_start abi data (Suc k))
                     \<and> length cs = header_iterations (record_header abi data k)
                     \<and> console s' = console s"
      using u by (simp only: eq) (simp add: record_header_def)
  qed
  have frame: "\<forall>data'.
                     (\<forall>w < record_words abi (record_header abi data k).
                        data' (?off + of_nat w) = data (?off + of_nat w))
                     \<longrightarrow> perform_invocation abi kern data' ?off (of_nat k) s
                           = perform_invocation abi kern data ?off (of_nat k) s"
  proof (intro allI impI)
    fix data'
    assume "\<forall>w < record_words abi (record_header abi data k). data' (?off + of_nat w) = data (?off + of_nat w)"
    then show "perform_invocation abi kern data' ?off (of_nat k) s
                 = perform_invocation abi kern data ?off (of_nat k) s"
      using w(2) perform_invocation_frame [of abi data ?off data' kern "of_nat k" s]
      by (simp add: record_header_def)
  qed
  show "\<exists>out s' cs.
               perform_invocation abi kern data ?off (of_nat k) s = Some (out, s')
               \<and> calls s' = calls s @ cs
               \<and> length cs \<le> header_iterations (record_header abi data k)
               \<and> (calls_succeed abi kern (kstate s) cs \<longrightarrow>
                     (\<exists>off'. out = Returned off'
                        \<and> unat off' = record_start abi data k + record_words abi (record_header abi data k)
                        \<and> unat off' = record_start abi data (Suc k))
                     \<and> length cs = header_iterations (record_header abi data k)
                     \<and> console s' = console s)
               \<and> (\<not> calls_succeed abi kern (kstate s) cs \<longrightarrow> out = Halted)
               \<and> (\<forall>data'.
                     (\<forall>w < record_words abi (record_header abi data k).
                        data' (?off + of_nat w) = data (?off + of_nat w))
                     \<longrightarrow> perform_invocation abi kern data' ?off (of_nat k) s
                           = perform_invocation abi kern data ?off (of_nat k) s)"
    using p(1,2) b c p(6) frame by (intro exI [of _ out] exI [of _ s'] exI [of _ cs] conjI)
qed


theorem script_runner_consumes_records_witness:
  "unat (2 :: 64 word) = 2
   \<and> get_capsUnwrapped sel4_msginfo (header_tag (record_header sel4_msginfo (buffer_of example_stream) 0)) = 0
   \<and> header_iterations (record_header sel4_msginfo (buffer_of example_stream) 0) < 2 ^ 32
   \<and> get_capsUnwrapped sel4_msginfo (header_tag (record_header sel4_msginfo (buffer_of example_stream) 1)) = 0
   \<and> header_iterations (record_header sel4_msginfo (buffer_of example_stream) 1) < 2 ^ 32
   \<and> record_start sel4_msginfo (buffer_of example_stream) (unat (2 :: 64 word)) < 2 ^ 32
   \<and> (\<exists>off st' cs. run_script sel4_msginfo ok_kernel (buffer_of example_stream) 2 idle_state
                    = Some (Returned off, st')
                  \<and> calls st' = calls idle_state @ cs
                  \<and> calls_succeed sel4_msginfo ok_kernel (kstate idle_state) cs
                  \<and> unat off = 8 \<and> length cs = 3 \<and> console st' = [])
   \<and> (\<exists>off st' cs. run_script sel4_msginfo (failing_kernel 5 3) (buffer_of example_stream) 2 idle_state
                    = Some (Returned off, st')
                  \<and> calls st' = calls idle_state @ cs
                  \<and> calls_succeed sel4_msginfo (failing_kernel 5 3) (kstate idle_state) cs
                  \<and> unat off = 8 \<and> length cs = 3 \<and> console st' = [])"
proof -
  let ?d = "buffer_of example_stream"
  have s: "record_start sel4_msginfo ?d 0 = 0"
    "record_start sel4_msginfo ?d 1 = 3"
    "record_start sel4_msginfo ?d 2 = 8"
    by code_simp+
  have w0: "get_capsUnwrapped sel4_msginfo (header_tag (record_header sel4_msginfo ?d 0)) = 0
         \<and> header_iterations (record_header sel4_msginfo ?d 0) < 2 ^ 32"
    by (simp add: record_header_def s(1) example_header_defs)
  have w1: "get_capsUnwrapped sel4_msginfo (header_tag (record_header sel4_msginfo ?d 1)) = 0
         \<and> header_iterations (record_header sel4_msginfo ?d 1) < 2 ^ 32"
    using s(2) by (simp add: record_header_def example_header_defs)
  have u: "unat (2 :: 64 word) = 2" by simp
  have wf: "\<forall>j < unat (2 :: 64 word).
         get_capsUnwrapped sel4_msginfo (header_tag (record_header sel4_msginfo ?d j)) = 0
         \<and> header_iterations (record_header sel4_msginfo ?d j) < 2 ^ 32"
    unfolding u using w0 w1 by (auto simp: less_2_cases_iff)
  have fits: "record_start sel4_msginfo ?d (unat (2 :: 64 word)) < 2 ^ 32"
    unfolding u using s(3) by simp
  have hs: "header_iterations (record_header sel4_msginfo ?d 0) = 1"
    "header_iterations (record_header sel4_msginfo ?d 1) = 2"
    using s(2) by (simp_all add: record_header_def example_header_defs)
  have sum: "(\<Sum>j < unat (2 :: 64 word). header_iterations (record_header sel4_msginfo ?d j)) = 3"
    unfolding u using hs by (simp add: lessThan_Suc numeral_2_eq_2)
  have idle: "kstate idle_state = 0" "calls idle_state = []" "console idle_state = []"
    by (simp_all add: idle_state_def)
  from script_runner_consumes_records [OF wf fits, of ok_kernel idle_state]
  obtain out st' cs where r:
    "run_script sel4_msginfo ok_kernel ?d 2 idle_state = Some (out, st')"
    "calls st' = calls idle_state @ cs"
    "calls_succeed sel4_msginfo ok_kernel (kstate idle_state) cs \<longrightarrow>
       (\<exists>off. out = Returned off \<and> unat off = record_start sel4_msginfo ?d (unat (2 :: 64 word)))
       \<and> length cs = (\<Sum>j < unat (2 :: 64 word). header_iterations (record_header sel4_msginfo ?d j))
       \<and> console st' = console idle_state"
    by blast
  have ok: "calls_succeed sel4_msginfo ok_kernel (kstate idle_state) cs"
    by (rule ok_kernel_calls_succeed)
  with r(3) obtain off where o: "out = Returned off"
      "unat off = record_start sel4_msginfo ?d (unat (2 :: 64 word))"
      "length cs = (\<Sum>j < unat (2 :: 64 word). header_iterations (record_header sel4_msginfo ?d j))"
      "console st' = console idle_state"
    by blast
  have A: "\<exists>off st' cs. run_script sel4_msginfo ok_kernel ?d 2 idle_state = Some (Returned off, st')
                  \<and> calls st' = calls idle_state @ cs
                  \<and> calls_succeed sel4_msginfo ok_kernel (kstate idle_state) cs
                  \<and> unat off = 8 \<and> length cs = 3 \<and> console st' = []"
    using r(1,2) ok o s(3) sum idle(3)
    by (intro exI [of _ off] exI [of _ st'] exI [of _ cs] conjI) (simp_all add: u)
  from script_runner_consumes_records [OF wf fits, of "failing_kernel 5 3" idle_state]
  obtain out2 st2 cs2 where q:
    "run_script sel4_msginfo (failing_kernel 5 3) ?d 2 idle_state = Some (out2, st2)"
    "calls st2 = calls idle_state @ cs2"
    "length cs2 \<le> (\<Sum>j < unat (2 :: 64 word). header_iterations (record_header sel4_msginfo ?d j))"
    "calls_succeed sel4_msginfo (failing_kernel 5 3) (kstate idle_state) cs2 \<longrightarrow>
       (\<exists>off. out2 = Returned off \<and> unat off = record_start sel4_msginfo ?d (unat (2 :: 64 word)))
       \<and> length cs2 = (\<Sum>j < unat (2 :: 64 word). header_iterations (record_header sel4_msginfo ?d j))
       \<and> console st2 = console idle_state"
    by blast
  have "kstate idle_state + length cs2 \<le> 5"
    using q(3) sum idle(1) by simp
  then have ok2: "calls_succeed sel4_msginfo (failing_kernel 5 3) (kstate idle_state) cs2"
    by (rule failing_kernel_calls_succeed)
  with q(4) obtain off2 where o2: "out2 = Returned off2"
      "unat off2 = record_start sel4_msginfo ?d (unat (2 :: 64 word))"
      "length cs2 = (\<Sum>j < unat (2 :: 64 word). header_iterations (record_header sel4_msginfo ?d j))"
      "console st2 = console idle_state"
    by blast
  have B: "\<exists>off st' cs. run_script sel4_msginfo (failing_kernel 5 3) ?d 2 idle_state
                    = Some (Returned off, st')
                  \<and> calls st' = calls idle_state @ cs
                  \<and> calls_succeed sel4_msginfo (failing_kernel 5 3) (kstate idle_state) cs
                  \<and> unat off = 8 \<and> length cs = 3 \<and> console st' = []"
    using q(1,2) ok2 o2 s(3) sum idle(3)
    by (intro exI [of _ off2] exI [of _ st2] exI [of _ cs2] conjI) (simp_all add: u)
  from u w0 w1 fits A B show ?thesis
    by (intro conjI) simp_all
qed

text \<open>
  Claim C3, as amended. For a record whose iteration count the loop counter can reach (the
  high 32 bits of the header are not \<^verbatim>\<open>0xffffffff\<close>): every call issued for the record
  carries the low 32 bits of the header as its tag; the number of calls issued is at most
  the iteration count, which is the high 32 bits of the header plus one. It is the
  iteration count whenever \<^verbatim>\<open>perform_invocation\<close> returns, and it returns when the tag
  reports no unwrapped capabilities and every call it issued returned success. When a
  call does not return success, that call is the last one issued and the function halts.
\<close>

theorem iterations_and_tag:
  assumes "header_iterations (data off) < 2 ^ 32"
  shows "\<exists>out st' cs.
           perform_invocation abi kern data off idx st = Some (out, st')
           \<and> calls st' = calls st @ cs
           \<and> (\<forall>c \<in> set cs. call_tag c = data off AND 0xffffffff)
           \<and> length cs \<le> unat (drop_bit 32 (data off)) + 1
           \<and> (out \<noteq> Halted \<longrightarrow> length cs = unat (drop_bit 32 (data off)) + 1)
           \<and> (get_capsUnwrapped abi (data off AND 0xffffffff) = 0
                 \<and> calls_succeed abi kern (kstate st) cs
                \<longrightarrow> out \<noteq> Halted \<and> length cs = unat (drop_bit 32 (data off)) + 1)
           \<and> (\<not> calls_succeed abi kern (kstate st) cs
                \<longrightarrow> out = Halted \<and> cs \<noteq> [] \<and> calls_succeed abi kern (kstate st) (butlast cs))"
proof -
  let ?rc = "decode_invocation abi data off"
  obtain out st' cs where p:
      "perform_invocation abi kern data off idx st = Some (out, st')"
      "calls st' = calls st @ cs"
      "length cs \<le> header_iterations (data off)"
      "\<forall>m<length cs. \<exists>t. cs ! m = iteration_call data ?rc (of_nat m) t"
      "out \<noteq> Halted \<longrightarrow>
         out = Returned (off + of_nat (record_words abi (data off)))
         \<and> length cs = header_iterations (data off) \<and> console st' = console st"
      "get_capsUnwrapped abi (header_tag (data off)) = 0 \<and> calls_succeed abi kern (kstate st) cs
         \<longrightarrow> out \<noteq> Halted"
      "\<not> calls_succeed abi kern (kstate st) cs \<longrightarrow>
         out = Halted \<and> cs \<noteq> [] \<and> calls_succeed abi kern (kstate st) (butlast cs)"
    using perform_invocation_run [of data off abi kern idx st] assms by blast
  have tags: "\<forall>c \<in> set cs. call_tag c = data off AND 0xffffffff"
  proof
    fix c assume "c \<in> set cs"
    then obtain m where "m < length cs" "cs ! m = c"
      by (auto simp: in_set_conv_nth)
    with p(4) obtain t where "c = iteration_call data ?rc (of_nat m) t" by auto
    then show "call_tag c = data off AND 0xffffffff"
      by (simp add: iteration_call_tag header_tag_def)
  qed
  have a: "length cs \<le> unat (drop_bit 32 (data off)) + 1"
    using p(3) by (simp add: header_iterations_def)
  have b: "out \<noteq> Halted \<longrightarrow> length cs = unat (drop_bit 32 (data off)) + 1"
    using p(5) by (simp add: header_iterations_def)
  have c: "get_capsUnwrapped abi (data off AND 0xffffffff) = 0
                 \<and> calls_succeed abi kern (kstate st) cs
                \<longrightarrow> out \<noteq> Halted \<and> length cs = unat (drop_bit 32 (data off)) + 1"
    using p(6) b by (simp add: header_tag_def)
  show ?thesis
    using p(1,2) tags a b c p(7)
    by (intro exI [of _ out] exI [of _ st'] exI [of _ cs] conjI)
qed

theorem iterations_and_tag_witness:
  "header_iterations (buffer_of example_record 0) < 2 ^ 32
   \<and> get_capsUnwrapped sel4_msginfo (buffer_of example_record 0 AND 0xffffffff) = 0
   \<and> unat (drop_bit 32 (buffer_of example_record 0)) + 1 = 3
   \<and> (\<exists>st' cs.
         perform_invocation sel4_msginfo ok_kernel (buffer_of example_record) 0 0 idle_state
           = Some (Returned 13, st')
         \<and> calls st' = calls idle_state @ cs
         \<and> calls_succeed sel4_msginfo ok_kernel (kstate idle_state) cs
         \<and> (\<forall>c \<in> set cs. call_tag c = 5)
         \<and> length cs = 3)
   \<and> (\<exists>st' cs.
         perform_invocation sel4_msginfo (failing_kernel 1 3) (buffer_of example_record) 0 0 idle_state
           = Some (Halted, st')
         \<and> calls st' = calls idle_state @ cs
         \<and> \<not> calls_succeed sel4_msginfo (failing_kernel 1 3) (kstate idle_state) cs
         \<and> calls_succeed sel4_msginfo (failing_kernel 1 3) (kstate idle_state) (butlast cs)
         \<and> (\<forall>c \<in> set cs. call_tag c = 5)
         \<and> map call_service cs = [100, 110])"
proof -
  let ?d = "buffer_of example_record"
  have h1: "header_iterations (?d 0) < 2 ^ 32"
    by (simp add: example_header_defs)
  have h3: "get_capsUnwrapped sel4_msginfo (?d 0 AND 0xffffffff) = 0"
    by (simp add: example_header_defs)
  have v: "?d 0 AND 0xffffffff = 5"
    "unat (drop_bit 32 (?d 0)) + 1 = 3"
    by (simp_all add: example_header_defs)
  from iterations_and_tag [of ?d 0 sel4_msginfo ok_kernel 0 idle_state] h1
  obtain out st' cs where r:
    "perform_invocation sel4_msginfo ok_kernel ?d 0 0 idle_state = Some (out, st')"
    "calls st' = calls idle_state @ cs"
    "\<forall>c \<in> set cs. call_tag c = ?d 0 AND 0xffffffff"
    "get_capsUnwrapped sel4_msginfo (?d 0 AND 0xffffffff) = 0
       \<and> calls_succeed sel4_msginfo ok_kernel (kstate idle_state) cs
       \<longrightarrow> out \<noteq> Halted \<and> length cs = unat (drop_bit 32 (?d 0)) + 1"
    by blast
  have ok: "calls_succeed sel4_msginfo ok_kernel (kstate idle_state) cs"
    by (rule ok_kernel_calls_succeed)
  with r(4) h3 have nh: "out \<noteq> Halted" and l: "length cs = unat (drop_bit 32 (?d 0)) + 1"
    by blast+
  have "run_outcome (perform_invocation sel4_msginfo ok_kernel ?d 0 0 idle_state)
          = Some (Returned 13)"
    by code_simp
  with r(1) have o: "out = Returned 13"
    by (simp add: run_outcome_def)
  have A: "\<exists>st' cs.
         perform_invocation sel4_msginfo ok_kernel ?d 0 0 idle_state = Some (Returned 13, st')
         \<and> calls st' = calls idle_state @ cs
         \<and> calls_succeed sel4_msginfo ok_kernel (kstate idle_state) cs
         \<and> (\<forall>c \<in> set cs. call_tag c = 5)
         \<and> length cs = 3"
    using r(1,2,3) ok o l v
    by (intro exI [of _ st'] exI [of _ cs] conjI) simp_all
  from iterations_and_tag [of ?d 0 sel4_msginfo "failing_kernel 1 3" 0 idle_state] h1
  obtain out2 st2 cs2 where q:
    "perform_invocation sel4_msginfo (failing_kernel 1 3) ?d 0 0 idle_state = Some (out2, st2)"
    "calls st2 = calls idle_state @ cs2"
    "\<forall>c \<in> set cs2. call_tag c = ?d 0 AND 0xffffffff"
    "get_capsUnwrapped sel4_msginfo (?d 0 AND 0xffffffff) = 0
       \<and> calls_succeed sel4_msginfo (failing_kernel 1 3) (kstate idle_state) cs2
       \<longrightarrow> out2 \<noteq> Halted \<and> length cs2 = unat (drop_bit 32 (?d 0)) + 1"
    "\<not> calls_succeed sel4_msginfo (failing_kernel 1 3) (kstate idle_state) cs2
       \<longrightarrow> out2 = Halted \<and> cs2 \<noteq> []
           \<and> calls_succeed sel4_msginfo (failing_kernel 1 3) (kstate idle_state) (butlast cs2)"
    by blast
  have "run_outcome (perform_invocation sel4_msginfo (failing_kernel 1 3) ?d 0 0 idle_state)
          = Some Halted"
    by code_simp
  with q(1) have o2: "out2 = Halted"
    by (simp add: run_outcome_def)
  with q(4) h3 have ns: "\<not> calls_succeed sel4_msginfo (failing_kernel 1 3) (kstate idle_state) cs2"
    by blast
  with q(5) have bl: "calls_succeed sel4_msginfo (failing_kernel 1 3) (kstate idle_state) (butlast cs2)"
    by blast
  have "issued_targets (perform_invocation sel4_msginfo (failing_kernel 1 3) ?d 0 0 idle_state)
          = Some [100, 110]"
    by code_simp
  with q(1,2) have t2: "map call_service cs2 = [100, 110]"
    by (simp add: issued_targets_def idle_state_def)
  have B: "\<exists>st' cs.
         perform_invocation sel4_msginfo (failing_kernel 1 3) ?d 0 0 idle_state = Some (Halted, st')
         \<and> calls st' = calls idle_state @ cs
         \<and> \<not> calls_succeed sel4_msginfo (failing_kernel 1 3) (kstate idle_state) cs
         \<and> calls_succeed sel4_msginfo (failing_kernel 1 3) (kstate idle_state) (butlast cs)
         \<and> (\<forall>c \<in> set cs. call_tag c = 5)
         \<and> map call_service cs = [100, 110]"
    using q(1,2,3) o2 ns bl t2 v
    by (intro exI [of _ st2] exI [of _ cs2] conjI) simp_all
  from h1 h3 v(2) A B show ?thesis
    by (intro conjI)
qed

text \<open>
  Claim C3 as stated fails: the header of the example record asks for three iterations (its
  high half is 2), and when the kernel answers the first call with an error a single call
  is issued before the executor halts.
\<close>

theorem failed_call_ends_iterations:
  "header_iterations (buffer_of example_record 0) = 3
   \<and> get_capsUnwrapped sel4_msginfo (header_tag (buffer_of example_record 0)) = 0
   \<and> (\<forall>c. reply_result sel4_msginfo (fst (fst (failing_kernel 0 3 0 c))) = 3)
   \<and> run_outcome
         (perform_invocation sel4_msginfo (failing_kernel 0 3) (buffer_of example_record) 0 0 idle_state)
       = Some Halted
   \<and> issued_targets
         (perform_invocation sel4_msginfo (failing_kernel 0 3) (buffer_of example_record) 0 0 idle_state)
       = Some [100]"
proof -
  have "header_iterations (buffer_of example_record 0) = 3"
    "get_capsUnwrapped sel4_msginfo (header_tag (buffer_of example_record 0)) = 0"
    by (simp_all add: example_header_defs)
  moreover have "\<forall>c. reply_result sel4_msginfo (fst (fst (failing_kernel 0 3 0 c))) = 3"
    by (simp add: failing_kernel_def sel4_msginfo_def reply_result_def)
  moreover have "run_outcome
         (perform_invocation sel4_msginfo (failing_kernel 0 3) (buffer_of example_record) 0 0 idle_state)
       = Some Halted"
    by code_simp
  moreover have "issued_targets
      (perform_invocation sel4_msginfo (failing_kernel 0 3) (buffer_of example_record) 0 0 idle_state)
       = Some [100]"
    by code_simp
  ultimately show ?thesis by (intro conjI)
qed

text \<open>
  Claim C4. For manifests whose region count is within the arrays that hold them
  (\<^verbatim>\<open>MAX_UNTYPED_REGIONS\<close> for the embedded one, the kernel's list for the reported one),
  \<^verbatim>\<open>check_untypeds_match\<close> returns false exactly when the start slots differ, or the end
  slots differ, or at some index below \<open>cap_end - cap_start\<close> the physical address, the size
  class or the device flag differs; it returns true exactly when all of them match; and it
  reads no array out of bounds.
\<close>

theorem manifest_check_iff:
  assumes "unat (cap_end ui - cap_start ui) \<le> MAX_UNTYPED_REGIONS"
    and "unat (untyped_end bi - untyped_start bi) \<le> untypedList_size bi"
  shows "(check_untypeds_match ui bi = In_Bounds False \<longleftrightarrow>
            cap_start ui \<noteq> untyped_start bi \<or> cap_end ui \<noteq> untyped_end bi
            \<or> (\<exists>i < unat (cap_end ui - cap_start ui).
                  paddr (regions ui i) \<noteq> ut_paddr (untypedList bi i)
                  \<or> size_bits (regions ui i) \<noteq> ucast (ut_sizeBits (untypedList bi i))
                  \<or> is_device (regions ui i) \<noteq> ucast (ut_isDevice (untypedList bi i))))
         \<and> (check_untypeds_match ui bi = In_Bounds True \<longleftrightarrow> manifests_match ui bi)
         \<and> check_untypeds_match ui bi \<noteq> Out_Of_Bounds"
proof (cases "cap_start ui = untyped_start bi \<and> cap_end ui = untyped_end bi")
  case False
  then show ?thesis
    by (auto simp add: check_untypeds_match_def manifests_match_def)
next
  case True
  with assms(2) have d2: "unat (cap_end ui - cap_start ui) \<le> untypedList_size bi"
    by simp
  have "unat (0 :: 32 word) \<le> unat (cap_end ui - cap_start ui)" by simp
  with assms(1) d2 have "check_regions ui bi 0 =
      In_Bounds (\<forall>j. unat (0 :: 32 word) \<le> j \<and> j < unat (cap_end ui - cap_start ui)
                   \<longrightarrow> \<not> region_differs ui bi j)"
    by (rule check_regions_from)
  with True show ?thesis
    by (auto simp add: check_untypeds_match_def manifests_match_def region_differs_def)
qed

theorem manifest_check_iff_witness:
  "unat (cap_end example_untyped_info - cap_start example_untyped_info) \<le> MAX_UNTYPED_REGIONS
   \<and> unat (untyped_end (example_bootinfo 12) - untyped_start (example_bootinfo 12))
        \<le> untypedList_size (example_bootinfo 12)
   \<and> check_untypeds_match example_untyped_info (example_bootinfo 12) = In_Bounds True
   \<and> check_untypeds_match example_untyped_info (example_bootinfo 13) = In_Bounds False"
proof -
  have h1: "unat (cap_end example_untyped_info - cap_start example_untyped_info) \<le> MAX_UNTYPED_REGIONS"
    by (simp add: example_untyped_info_def MAX_UNTYPED_REGIONS_def)
  have h2: "unat (untyped_end (example_bootinfo b) - untyped_start (example_bootinfo b))
        \<le> untypedList_size (example_bootinfo b)" for b
    by (simp add: example_bootinfo_def)
  have m: "manifests_match example_untyped_info (example_bootinfo 12)"
    by (simp add: manifests_match_def region_differs_def example_untyped_info_def example_bootinfo_def)
  have d: "\<exists>i < unat (cap_end example_untyped_info - cap_start example_untyped_info).
             paddr (regions example_untyped_info i) \<noteq> ut_paddr (untypedList (example_bootinfo 13) i)
             \<or> size_bits (regions example_untyped_info i) \<noteq> ucast (ut_sizeBits (untypedList (example_bootinfo 13) i))
             \<or> is_device (regions example_untyped_info i) \<noteq> ucast (ut_isDevice (untypedList (example_bootinfo 13) i))"
    by (simp add: example_untyped_info_def example_bootinfo_def)
  from manifest_check_iff [OF h1 h2 [of 12]] manifest_check_iff [OF h1 h2 [of 13]] m d h1 h2 [of 12]
  show ?thesis by blast
qed

text \<open>
  Claim C5, as amended. When the script runner is at record \<open>idx\<close>, the first \<open>i\<close> iterations
  of the record have returned, and the kernel answers the call of iteration \<open>i\<close> with a
  label whose low 32 bits (the \<^verbatim>\<open>seL4_Error\<close> that the executor reads) are not
  \<^verbatim>\<open>seL4_NoError\<close>, the run ends \<open>Halted\<close>: the failing call is the last call issued (no
  later iteration, no later record), and the console ends with the line naming that code in
  hexadecimal, its symbolic name, the index \<open>idx\<close> and the iteration \<open>i\<close>, followed by the
  line of \<^verbatim>\<open>fail\<close>.
\<close>

theorem invocation_error_halts:
  assumes "ucast idx < count"
    and "get_capsUnwrapped abi (header_tag (data off)) = 0"
    and "i < header_iterations (data off)"
    and "first_iterations abi kern data (decode_invocation abi data off) idx i 0 st
           = (Returned (), st_i)"
    and "kern (kstate st_i)
           (iteration_call data (decode_invocation abi data off) (of_nat i) (xport st_i))
           = ((out_tag, t'), k')"
    and "reply_result abi out_tag \<noteq> seL4_NoError"
  shows "\<exists>st'.
           perform_invocation abi kern data off idx st = Some (Halted, st')
           \<and> run_invocations abi kern data count idx off st = Some (Halted, st')
           \<and> st' =
             st_i\<lparr>xport := t', kstate := k',
                  calls := calls st_i
                    @ [iteration_call data (decode_invocation abi data off) (of_nat i) (xport st_i)],
                  console := console st_i
                    @ ''ERROR: '' @ ''0x'' @ hex_digits 16 (ucast (reply_result abi out_tag) :: 64 word)
                    @ '' '' @ sel4_strerror (ucast (reply_result abi out_tag))
                    @ ''  invocation idx: '' @ ''0x'' @ hex_digits 8 idx
                    @ ''.'' @ ''0x'' @ hex_digits 8 (of_nat i :: 32 word) @ [CHR 0x0A]
                    @ ''FAIL: invocation error'' @ [CHR 0x0A]\<rparr>"
proof -
  let ?rc = "decode_invocation abi data off"
  let ?c = "iteration_call data ?rc (of_nat i) (xport st_i)"
  have err: "reply_result abi (fst (fst (kern (kstate st_i) ?c))) \<noteq> seL4_NoError"
    using assms(5,6) by simp
  then have it: "invocation_iteration abi kern data ?rc idx (of_nat i) st_i =
           (Halted,
            st_i\<lparr>xport := snd (fst (kern (kstate st_i) ?c)),
               kstate := snd (kern (kstate st_i) ?c),
               calls := calls st_i @ [?c],
               console := fail_output ''invocation error''
                 (invocation_error_output (reply_result abi (fst (fst (kern (kstate st_i) ?c))))
                    idx (of_nat i) (console st_i))\<rparr>)"
    by (rule invocation_iteration_Halted)
  have "perform_invocation abi kern data off idx st =
           Some (Halted, snd (invocation_iteration abi kern data ?rc idx (of_nat i) st_i))"
    using perform_invocation_error [of abi data off i kern idx st st_i] assms(2,3,4) err by blast
  with it have p: "perform_invocation abi kern data off idx st =
           Some (Halted,
            st_i\<lparr>xport := snd (fst (kern (kstate st_i) ?c)),
               kstate := snd (kern (kstate st_i) ?c),
               calls := calls st_i @ [?c],
               console := fail_output ''invocation error''
                 (invocation_error_output (reply_result abi (fst (fst (kern (kstate st_i) ?c))))
                    idx (of_nat i) (console st_i))\<rparr>)"
    by simp
  with assms(1) have "run_invocations abi kern data count idx off st =
           Some (Halted,
            st_i\<lparr>xport := snd (fst (kern (kstate st_i) ?c)),
               kstate := snd (kern (kstate st_i) ?c),
               calls := calls st_i @ [?c],
               console := fail_output ''invocation error''
                 (invocation_error_output (reply_result abi (fst (fst (kern (kstate st_i) ?c))))
                    idx (of_nat i) (console st_i))\<rparr>)"
    by (rule run_invocations_Halted)
  with p show ?thesis
    using assms(5)
    by (simp add: fail_output_def invocation_error_output_def puts_def puthex32_def puthex64_def)
qed

theorem invocation_error_halts_witness:
  "ucast (1 :: 32 word) < (2 :: 64 word)
   \<and> get_capsUnwrapped sel4_msginfo (header_tag (buffer_of example_stream 3)) = 0
   \<and> 1 < header_iterations (buffer_of example_stream 3)
   \<and> fst (first_iterations sel4_msginfo (failing_kernel 1 3) (buffer_of example_stream)
            (decode_invocation sel4_msginfo (buffer_of example_stream) 3) 1 1 0 idle_state) = Returned ()
   \<and> run_outcome (run_invocations sel4_msginfo (failing_kernel 1 3) (buffer_of example_stream) 2 1 3 idle_state)
       = Some Halted
   \<and> issued_targets (run_invocations sel4_msginfo (failing_kernel 1 3) (buffer_of example_stream) 2 1 3 idle_state)
       = Some [20, 25]
   \<and> map_option (console \<circ> snd)
        (run_invocations sel4_msginfo (failing_kernel 1 3) (buffer_of example_stream) 2 1 3 idle_state)
       = Some (''ERROR: 0x0000000000000003 seL4_IllegalOperation  invocation idx: 0x00000001.0x00000001''
               @ [CHR 0x0A] @ ''FAIL: invocation error'' @ [CHR 0x0A])"
proof -
  let ?abi = sel4_msginfo
  let ?kern = "failing_kernel 1 3"
  let ?data = "buffer_of example_stream"
  let ?rc = "decode_invocation ?abi ?data 3"
  let ?r = "first_iterations ?abi ?kern ?data ?rc 1 1 0 idle_state"
  let ?c = "iteration_call ?data ?rc (of_nat 1) (xport (snd ?r))"
  let ?k = "?kern (kstate (snd ?r)) ?c"
  have h1: "ucast (1 :: 32 word) < (2 :: 64 word)" by simp
  have h2: "get_capsUnwrapped ?abi (header_tag (?data 3)) = 0"
    by (simp add: example_header_defs)
  have h3: "1 < header_iterations (?data 3)"
    by (simp add: example_header_defs)
  have f: "fst ?r = Returned ()"
    by code_simp
  then have h4: "?r = (Returned (), snd ?r)"
    by (metis prod.collapse)
  have h5: "?k = ((fst (fst ?k), snd (fst ?k)), snd ?k)"
    by simp
  have ks: "kstate (snd ?r) = 1"
    by code_simp
  have lbl: "reply_result ?abi (fst (fst ?k)) = 3"
    using ks by (simp add: failing_kernel_def sel4_msginfo_def reply_result_def)
  then have h6: "reply_result ?abi (fst (fst ?k)) \<noteq> seL4_NoError"
    by (simp add: seL4_NoError_def)
  have cs: "map call_service (calls (snd ?r)) = [20]" "console (snd ?r) = []"
    by code_simp+
  have sv: "call_service ?c = 25"
    by code_simp
  have hx: "hex_digits 16 (ucast (3 :: 32 word) :: 64 word) = ''0000000000000003''"
    "hex_digits 8 (1 :: 32 word) = ''00000001''"
    by code_simp+
  have se: "sel4_strerror (ucast (3 :: 32 word)) = ''seL4_IllegalOperation''"
    by code_simp
  from invocation_error_halts [of 1 2 ?abi ?data 3 1 ?kern idle_state "snd ?r" "fst (fst ?k)" "snd (fst ?k)" "snd ?k",
      OF h1 h2 h3 h4 h5 h6]
  obtain st' where "run_invocations ?abi ?kern ?data 2 1 3 idle_state = Some (Halted, st')"
    and "st' =
             (snd ?r)\<lparr>xport := snd (fst ?k), kstate := snd ?k,
                  calls := calls (snd ?r) @ [?c],
                  console := console (snd ?r)
                    @ ''ERROR: '' @ ''0x'' @ hex_digits 16 (ucast (reply_result ?abi (fst (fst ?k))) :: 64 word)
                    @ '' '' @ sel4_strerror (ucast (reply_result ?abi (fst (fst ?k))))
                    @ ''  invocation idx: '' @ ''0x'' @ hex_digits 8 (1 :: 32 word)
                    @ ''.'' @ ''0x'' @ hex_digits 8 (of_nat 1 :: 32 word) @ [CHR 0x0A]
                    @ ''FAIL: invocation error'' @ [CHR 0x0A]\<rparr>"
    by blast
  then have "run_outcome (run_invocations ?abi ?kern ?data 2 1 3 idle_state) = Some Halted"
    and "issued_targets (run_invocations ?abi ?kern ?data 2 1 3 idle_state) = Some [20, 25]"
    and "map_option (console \<circ> snd) (run_invocations ?abi ?kern ?data 2 1 3 idle_state)
       = Some (''ERROR: 0x0000000000000003 seL4_IllegalOperation  invocation idx: 0x00000001.0x00000001''
               @ [CHR 0x0A] @ ''FAIL: invocation error'' @ [CHR 0x0A])"
    using cs sv lbl hx se by (simp_all add: run_outcome_def issued_targets_def)
  with h1 h2 h3 f show ?thesis by blast
qed

text \<open>
  Claim C5 as stated fails: a label that is not \<^verbatim>\<open>seL4_NoError\<close> but whose low 32 bits are
  zero is read as success. The kernel answers the first call of the example stream with the
  label \<^verbatim>\<open>0x100000000\<close>; the runner goes on through both records and returns, and nothing
  is printed.
\<close>

theorem wide_label_is_read_as_success:
  "(\<forall>c. get_label sel4_msginfo (fst (fst (failing_kernel 0 0x100000000 0 c))) = 0x100000000)
   \<and> (0x100000000 :: 64 word) \<noteq> seL4_NoError
   \<and> (\<forall>c. reply_result sel4_msginfo (fst (fst (failing_kernel 0 0x100000000 0 c))) = seL4_NoError)
   \<and> run_outcome
        (run_script sel4_msginfo (failing_kernel 0 0x100000000) (buffer_of example_stream) 2 idle_state)
       = Some (Returned 8)
   \<and> issued_targets
        (run_script sel4_msginfo (failing_kernel 0 0x100000000) (buffer_of example_stream) 2 idle_state)
       = Some [7, 20, 25]
   \<and> map_option (console \<circ> snd)
        (run_script sel4_msginfo (failing_kernel 0 0x100000000) (buffer_of example_stream) 2 idle_state)
       = Some []"
proof -
  have a: "\<forall>c. get_label sel4_msginfo (fst (fst (failing_kernel 0 0x100000000 0 c))) = 0x100000000"
    by (simp add: failing_kernel_def sel4_msginfo_def)
  have b: "(0x100000000 :: 64 word) \<noteq> seL4_NoError"
    by (simp add: seL4_NoError_def)
  have c: "\<forall>c. reply_result sel4_msginfo (fst (fst (failing_kernel 0 0x100000000 0 c))) = seL4_NoError"
    by (simp add: failing_kernel_def sel4_msginfo_def reply_result_def seL4_NoError_def)
  have d: "run_outcome
        (run_script sel4_msginfo (failing_kernel 0 0x100000000) (buffer_of example_stream) 2 idle_state)
       = Some (Returned 8)"
    by code_simp
  have e: "issued_targets
        (run_script sel4_msginfo (failing_kernel 0 0x100000000) (buffer_of example_stream) 2 idle_state)
       = Some [7, 20, 25]"
    by code_simp
  have f: "map_option (console \<circ> snd)
        (run_script sel4_msginfo (failing_kernel 0 0x100000000) (buffer_of example_stream) 2 idle_state)
       = Some []"
    by code_simp
  from a b c d e f show ?thesis by (intro conjI)
qed

text \<open>
  Claim C6. A record whose tag reports a nonzero count of unwrapped capabilities makes
  \<^verbatim>\<open>perform_invocation\<close> halt in \<^verbatim>\<open>fail\<close> with the state it was given, but for the line
  printed: no call is issued and no slot of the transport is written; the script runner
  ends there, so no later record is executed.
\<close>

theorem unwrapped_caps_halt:
  assumes "get_capsUnwrapped abi (header_tag (data off)) \<noteq> 0"
  shows "perform_invocation abi kern data off idx st =
           Some (Halted, st\<lparr>console := console st
                   @ ''FAIL: kernel invocation should never have unwrapped caps'' @ [CHR 0x0A]\<rparr>)
         \<and> (ucast idx < count \<longrightarrow>
              (\<exists>st'. run_invocations abi kern data count idx off st = Some (Halted, st')
                     \<and> calls st' = calls st \<and> xport st' = xport st \<and> kstate st' = kstate st
                     \<and> console st' = console st
                         @ ''FAIL: kernel invocation should never have unwrapped caps'' @ [CHR 0x0A]))"
proof -
  let ?st = "st\<lparr>console := console st
                   @ ''FAIL: kernel invocation should never have unwrapped caps'' @ [CHR 0x0A]\<rparr>"
  have p: "perform_invocation abi kern data off idx st = Some (Halted, ?st)"
    using assms by (rule perform_invocation_unwrapped)
  have "run_invocations abi kern data count idx off st = Some (Halted, ?st)" if "ucast idx < count"
    using that p by (rule run_invocations_Halted)
  with p show ?thesis by simp
qed

theorem unwrapped_caps_halt_witness:
  "get_capsUnwrapped sel4_msginfo (header_tag (buffer_of unwrapped_record 0)) \<noteq> 0
   \<and> perform_invocation sel4_msginfo ok_kernel (buffer_of unwrapped_record) 0 0 idle_state
       = Some (Halted, idle_state\<lparr>console :=
                 ''FAIL: kernel invocation should never have unwrapped caps'' @ [CHR 0x0A]\<rparr>)"
proof -
  have h: "get_capsUnwrapped sel4_msginfo (header_tag (buffer_of unwrapped_record 0)) \<noteq> 0"
    by (simp add: example_header_defs)
  from unwrapped_caps_halt [of sel4_msginfo "buffer_of unwrapped_record" 0 ok_kernel 0 idle_state] h
  show ?thesis
    by (simp add: idle_state_def)
qed

text \<open>
  Claim C7, as amended. The round ends in \<^verbatim>\<open>fail\<close> without any system call, so without
  reading the registers of the thread, for a message whose badge is invalid, in two cases:
  the badge is at least \<^verbatim>\<open>MAX_PDS\<close> and the read of \<^verbatim>\<open>pd_tcbs[badge]\<close> made before the
  tests returns a word; or the badge is below \<^verbatim>\<open>MAX_PDS\<close>, its name slot is empty and the
  label is not the null fault.
\<close>

theorem invalid_badge_halts:
  assumes "(MAX_PDS \<le> unat (recv_badge m) \<and> stray_read m \<noteq> None)
           \<or> (unat (recv_badge m) < MAX_PDS \<and> pd_names reg (unat (recv_badge m)) = []
                \<and> get_label abi (recv_tag m) \<noteq> seL4_Fault_NullFault)"
  shows "fst (monitor_round abi reg m tr) = Fail_Halt
         \<and> syscalls (snd (monitor_round abi reg m tr)) = syscalls tr
         \<and> printed (snd (monitor_round abi reg m tr)) =
             printed tr @ ''MON|ERROR: received message '' @ ''0x''
               @ hex_digits 8 (ucast (get_label abi (recv_tag m)) :: 32 word)
               @ ''  badge: '' @ ''0x'' @ hex_digits 16 (recv_badge m)
               @ ''  tcb cap: '' @ ''0x''
               @ hex_digits 16 (if unat (recv_badge m) < MAX_PDS
                                then pd_tcbs reg (unat (recv_badge m)) else the (stray_read m))
               @ [CHR 0x0A] @ ''FAIL: MON|ERROR: unknown/invalid badge'' @ [CHR 0x0A, CHR 0x0A]"
  using assms
  by (auto simp add: monitor_round_def monitor_dispatch_def Let_def array_read_def monitor_fail_def
        fail_output_def puts_def puthex32_def puthex64_def)

theorem invalid_badge_halts_witness:
  "unat (recv_badge (example_message 5 2)) < MAX_PDS
   \<and> pd_names example_registry (unat (recv_badge (example_message 5 2))) = []
   \<and> get_label sel4_msginfo (recv_tag (example_message 5 2)) \<noteq> seL4_Fault_NullFault
   \<and> fst (monitor_round sel4_msginfo example_registry (example_message 5 2) empty_trace) = Fail_Halt
   \<and> syscalls (snd (monitor_round sel4_msginfo example_registry (example_message 5 2) empty_trace)) = []
   \<and> MAX_PDS \<le> unat (recv_badge ((example_message 0 64)\<lparr>stray_read := Some 7\<rparr>))
   \<and> fst (monitor_round sel4_msginfo example_registry
             ((example_message 0 64)\<lparr>stray_read := Some 7\<rparr>) empty_trace) = Fail_Halt
   \<and> syscalls (snd (monitor_round sel4_msginfo example_registry
             ((example_message 0 64)\<lparr>stray_read := Some 7\<rparr>) empty_trace)) = []"
proof -
  have h1: "get_label sel4_msginfo (recv_tag (example_message 5 2)) \<noteq> seL4_Fault_NullFault"
    by (simp add: sel4_msginfo_def example_message_def seL4_Fault_NullFault_def)
  have h2: "unat (recv_badge (example_message 5 2)) < MAX_PDS"
    by (simp add: example_message_def MAX_PDS_def)
  have h3: "pd_names example_registry (unat (recv_badge (example_message 5 2))) = []"
    by (simp add: example_message_def example_registry_def)
  have h4: "MAX_PDS \<le> unat (recv_badge ((example_message 0 64)\<lparr>stray_read := Some 7\<rparr>))"
    by (simp add: example_message_def MAX_PDS_def)
  have h5: "stray_read ((example_message 0 64)\<lparr>stray_read := Some 7\<rparr>) \<noteq> None"
    by simp
  from invalid_badge_halts [of "example_message 5 2" example_registry sel4_msginfo empty_trace]
    invalid_badge_halts [of "(example_message 0 64)\<lparr>stray_read := Some 7\<rparr>" example_registry
      sel4_msginfo empty_trace]
    h1 h2 h3 h4 h5
  show ?thesis
    by (simp add: empty_trace_def)
qed

text \<open>
  Claim C7 as stated fails: a null-fault message with badge 2, whose name slot is empty,
  is handled as a passivation request, and the loop goes back to the receive.
\<close>

theorem unnamed_null_fault_does_not_halt:
  "unat (recv_badge (example_message 0 2)) < MAX_PDS
   \<and> pd_names example_registry (unat (recv_badge (example_message 0 2))) = []
   \<and> fst (monitor_round sel4_msginfo example_registry (example_message 0 2) empty_trace) = Recv_Again
   \<and> fst (monitor_round sel4_msginfo example_registry (example_message 0 2) empty_trace) \<noteq> Fail_Halt
   \<and> syscalls (snd (monitor_round sel4_msginfo example_registry (example_message 0 2) empty_trace))
       = [SchedContext_UnbindObject 202 102, SchedContext_Bind 202 302]"
  by (simp add: monitor_round_def monitor_dispatch_def Let_def array_read_def example_message_def
      example_registry_def empty_trace_def sel4_msginfo_def seL4_Fault_NullFault_def
      seL4_NoError_def MAX_PDS_def)

text \<open>
  Claim C8. A message with the null-fault label and a badge below \<^verbatim>\<open>MAX_PDS\<close> makes the
  round unbind the component's scheduling context from its TCB, bind it to the component's
  notification object, print one line (an error when the binding fails, the announcement
  that the component is passive otherwise) and go back to the receive.
\<close>

theorem null_fault_passivates:
  assumes "get_label abi (recv_tag m) = seL4_Fault_NullFault"
    and "unat (recv_badge m) < MAX_PDS"
  shows "monitor_round abi reg m tr =
           (Recv_Again,
            tr\<lparr>syscalls := syscalls tr
                  @ [SchedContext_UnbindObject (scheduling_contexts reg (unat (recv_badge m)))
                       (pd_tcbs reg (unat (recv_badge m))),
                     SchedContext_Bind (scheduling_contexts reg (unat (recv_badge m)))
                       (notification_caps reg (unat (recv_badge m)))],
               printed := printed tr
                  @ (if bind_error m \<noteq> seL4_NoError
                     then ''MON|ERROR: could not bind scheduling context to notification object''
                     else ''MON|INFO: PD '' @ [CHR 0x27] @ pd_names reg (unat (recv_badge m))
                            @ [CHR 0x27] @ '' is now passive!'' @ [CHR 0x0A])\<rparr>)"
  using assms
  by (simp add: monitor_round_def monitor_dispatch_def Let_def array_read_def puts_def)

theorem null_fault_passivates_witness:
  "get_label sel4_msginfo (recv_tag (example_message 0 1)) = seL4_Fault_NullFault
   \<and> unat (recv_badge (example_message 0 1)) < MAX_PDS
   \<and> monitor_round sel4_msginfo example_registry (example_message 0 1) empty_trace =
       (Recv_Again,
        \<lparr> syscalls = [SchedContext_UnbindObject 201 101, SchedContext_Bind 201 301],
          printed = ''MON|INFO: PD '' @ [CHR 0x27] @ ''hello'' @ [CHR 0x27] @ '' is now passive!'' @ [CHR 0x0A] \<rparr>)
   \<and> monitor_round sel4_msginfo example_registry ((example_message 0 1)\<lparr>bind_error := 3\<rparr>) empty_trace =
       (Recv_Again,
        \<lparr> syscalls = [SchedContext_UnbindObject 201 101, SchedContext_Bind 201 301],
          printed = ''MON|ERROR: could not bind scheduling context to notification object'' \<rparr>)"
proof -
  have h1: "get_label sel4_msginfo (recv_tag (example_message 0 1)) = seL4_Fault_NullFault"
    by (simp add: sel4_msginfo_def example_message_def seL4_Fault_NullFault_def)
  have h2: "unat (recv_badge (example_message 0 1)) < MAX_PDS"
    by (simp add: example_message_def MAX_PDS_def)
  have h1': "get_label sel4_msginfo (recv_tag ((example_message 0 1)\<lparr>bind_error := 3\<rparr>)) = seL4_Fault_NullFault"
    using h1 by simp
  have h2': "unat (recv_badge ((example_message 0 1)\<lparr>bind_error := 3\<rparr>)) < MAX_PDS"
    using h2 by simp
  from null_fault_passivates [OF h1 h2, of example_registry empty_trace]
    null_fault_passivates [OF h1' h2', of example_registry empty_trace] h1 h2
  show ?thesis
    by (simp add: example_message_def example_registry_def empty_trace_def seL4_NoError_def)
qed

text \<open>
  Claim C9. Each fault-decoder table function returns a non-empty string for every code,
  and the fallback string of its table for every code that has no entry. With CHERI,
  \<^verbatim>\<open>riscv_fsr_to_string\<close> has two tables: a status word with bit 11 clear and no entry in
  the table of causes yields \<^verbatim>\<open><Unexpected FSR>\<close>, and one with bit 11 set and low four
  bits without an entry in the table of CHERI causes yields \<^verbatim>\<open>Unexpected CHERI fault\<close>.
\<close>

theorem fault_decoder_tables_total:
  "riscv_fsr_to_string have_cheri fsr \<noteq> []
   \<and> riscv_fsr_cheri_type_to_string cheri_type \<noteq> []
   \<and> ec_to_string ec \<noteq> []
   \<and> data_abort_dfsc_to_string dfsc \<noteq> []
   \<and> usban_code_to_string code \<noteq> []
   \<and> (fsr \<notin> fst ` set riscv_fsr_table \<longrightarrow> riscv_fsr_to_string False fsr = ''<Unexpected FSR>'')
   \<and> (drop_bit 11 fsr AND 1 = 0 \<and> fsr \<notin> fst ` set riscv_fsr_table \<longrightarrow>
        riscv_fsr_to_string True fsr = ''<Unexpected FSR>'')
   \<and> (drop_bit 11 fsr AND 1 \<noteq> 0 \<and> fsr AND 0xf \<notin> fst ` set riscv_fsr_cheri_cause_table \<longrightarrow>
        riscv_fsr_to_string True fsr = ''Unexpected CHERI fault'')
   \<and> (cheri_type \<notin> fst ` set riscv_fsr_cheri_type_table \<longrightarrow>
        riscv_fsr_cheri_type_to_string cheri_type = ''Unexpected CHERI fault type'')
   \<and> (ec \<notin> fst ` set ec_table \<longrightarrow> ec_to_string ec = ''<invalid EC>'')
   \<and> (dfsc \<notin> fst ` set data_abort_dfsc_table \<longrightarrow> data_abort_dfsc_to_string dfsc = ''<unexpected DFSC>'')
   \<and> (code \<notin> fst ` set usban_code_table \<longrightarrow> usban_code_to_string code = ''unknown reason'')"
proof -
  have a1: "switch_string riscv_fsr_table ''<Unexpected FSR>'' fsr \<noteq> []"
    by (rule switch_string_nonempty) (simp_all add: riscv_fsr_table_def)
  have a2: "switch_string riscv_fsr_cheri_cause_table ''Unexpected CHERI fault'' (fsr AND 0xf) \<noteq> []"
    by (rule switch_string_nonempty) (simp_all add: riscv_fsr_cheri_cause_table_def)
  have a: "riscv_fsr_to_string have_cheri fsr \<noteq> []"
    using a1 a2 by (simp add: riscv_fsr_to_string_def)
  have b: "riscv_fsr_cheri_type_to_string cheri_type \<noteq> []"
    unfolding riscv_fsr_cheri_type_to_string_def
    by (rule switch_string_nonempty) (simp_all add: riscv_fsr_cheri_type_table_def)
  have c: "ec_to_string ec \<noteq> []"
    unfolding ec_to_string_def
    by (rule switch_string_nonempty) (simp_all add: ec_table_def)
  have d: "data_abort_dfsc_to_string dfsc \<noteq> []"
    unfolding data_abort_dfsc_to_string_def
    by (rule switch_string_nonempty) (simp_all add: data_abort_dfsc_table_def)
  have e: "fsr \<notin> fst ` set riscv_fsr_table \<longrightarrow> riscv_fsr_to_string False fsr = ''<Unexpected FSR>''"
    by (simp add: riscv_fsr_to_string_def switch_string_default)
  have f1: "drop_bit 11 fsr AND 1 = 0 \<and> fsr \<notin> fst ` set riscv_fsr_table \<longrightarrow>
        riscv_fsr_to_string True fsr = ''<Unexpected FSR>''"
    by (simp add: riscv_fsr_to_string_def switch_string_default)
  have f2: "drop_bit 11 fsr AND 1 \<noteq> 0 \<and> fsr AND 0xf \<notin> fst ` set riscv_fsr_cheri_cause_table \<longrightarrow>
        riscv_fsr_to_string True fsr = ''Unexpected CHERI fault''"
    by (simp add: riscv_fsr_to_string_def switch_string_default)
  have g: "cheri_type \<notin> fst ` set riscv_fsr_cheri_type_table \<longrightarrow>
        riscv_fsr_cheri_type_to_string cheri_type = ''Unexpected CHERI fault type''"
    by (simp add: riscv_fsr_cheri_type_to_string_def switch_string_default)
  have h: "ec \<notin> fst ` set ec_table \<longrightarrow> ec_to_string ec = ''<invalid EC>''"
    by (simp add: ec_to_string_def switch_string_default)
  have i: "dfsc \<notin> fst ` set data_abort_dfsc_table \<longrightarrow> data_abort_dfsc_to_string dfsc = ''<unexpected DFSC>''"
    by (simp add: data_abort_dfsc_to_string_def switch_string_default)
  have j: "usban_code_to_string code \<noteq> []"
    unfolding usban_code_to_string_def
    by (rule switch_string_nonempty) (simp_all add: usban_code_table_def)
  have k: "code \<notin> fst ` set usban_code_table \<longrightarrow> usban_code_to_string code = ''unknown reason''"
    by (simp add: usban_code_to_string_def switch_string_default)
  from a b c d j e f1 f2 g h i k show ?thesis by (intro conjI)
qed

theorem fault_decoder_tables_total_witness:
  "(10 :: 64 word) \<notin> fst ` set riscv_fsr_table
   \<and> riscv_fsr_to_string False 10 = ''<Unexpected FSR>''
   \<and> drop_bit 11 (16 :: 64 word) AND 1 = 0
   \<and> (16 :: 64 word) \<notin> fst ` set riscv_fsr_table
   \<and> riscv_fsr_to_string True 16 = ''<Unexpected FSR>''
   \<and> drop_bit 11 (0x805 :: 64 word) AND 1 \<noteq> 0
   \<and> (0x805 :: 64 word) AND 0xf \<notin> fst ` set riscv_fsr_cheri_cause_table
   \<and> riscv_fsr_to_string True 0x805 = ''Unexpected CHERI fault''
   \<and> riscv_fsr_to_string False 0x805 = ''<Unexpected FSR>''
   \<and> (3 :: 64 word) \<notin> fst ` set riscv_fsr_cheri_type_table
   \<and> (2 :: 64 word) \<notin> fst ` set ec_table
   \<and> (8 :: 64 word) \<notin> fst ` set data_abort_dfsc_table
   \<and> (25 :: 64 word) \<notin> fst ` set usban_code_table
   \<and> riscv_fsr_cheri_type_to_string 3 = ''Unexpected CHERI fault type''
   \<and> ec_to_string 2 = ''<invalid EC>''
   \<and> data_abort_dfsc_to_string 8 = ''<unexpected DFSC>''
   \<and> usban_code_to_string 25 = ''unknown reason''
   \<and> riscv_fsr_to_string True 13 = ''Load page fault''
   \<and> riscv_fsr_to_string True 0x804 = ''Bounds violation''
   \<and> riscv_fsr_cheri_type_to_string 1 = ''CHERI data fault due to load, store or AMO''
   \<and> ec_to_string 0x24 = ''Data Abort from a lower Exception level''
   \<and> data_abort_dfsc_to_string 0x21 = ''alignment fault''
   \<and> usban_code_to_string 18 = ''out of bounds access''"
proof -
  have m: "(10 :: 64 word) \<notin> fst ` set riscv_fsr_table"
    "(16 :: 64 word) \<notin> fst ` set riscv_fsr_table"
    "(0x805 :: 64 word) \<notin> fst ` set riscv_fsr_table"
    by (simp_all add: riscv_fsr_table_def)
  have b: "drop_bit 11 (16 :: 64 word) AND 1 = 0"
    "drop_bit 11 (0x805 :: 64 word) AND 1 \<noteq> 0"
    by (simp_all add: drop_bit_eq_div)
  have n: "(0x805 :: 64 word) AND 0xf \<notin> fst ` set riscv_fsr_cheri_cause_table"
    by (simp add: riscv_fsr_cheri_cause_table_def)
  have o: "(3 :: 64 word) \<notin> fst ` set riscv_fsr_cheri_type_table"
    "(2 :: 64 word) \<notin> fst ` set ec_table"
    "(8 :: 64 word) \<notin> fst ` set data_abort_dfsc_table"
    "(25 :: 64 word) \<notin> fst ` set usban_code_table"
    by (simp_all add: riscv_fsr_cheri_type_table_def ec_table_def data_abort_dfsc_table_def
          usban_code_table_def)
  from fault_decoder_tables_total [of False 10 3 2 8 25] m(1) o
  have A: "riscv_fsr_to_string False 10 = ''<Unexpected FSR>''"
    "riscv_fsr_cheri_type_to_string 3 = ''Unexpected CHERI fault type''"
    "ec_to_string 2 = ''<invalid EC>''"
    "data_abort_dfsc_to_string 8 = ''<unexpected DFSC>''"
    "usban_code_to_string 25 = ''unknown reason''"
    by blast+
  from fault_decoder_tables_total [of True 16 3 2 8 25] m(2) b(1)
  have B: "riscv_fsr_to_string True 16 = ''<Unexpected FSR>''"
    by blast
  from fault_decoder_tables_total [of True "0x805" 3 2 8 25] m(3) b(2) n
  have C: "riscv_fsr_to_string True 0x805 = ''Unexpected CHERI fault''"
    "riscv_fsr_to_string False 0x805 = ''<Unexpected FSR>''"
    by blast+
  have D: "riscv_fsr_to_string True 13 = ''Load page fault''"
    "riscv_fsr_to_string True 0x804 = ''Bounds violation''"
    "riscv_fsr_cheri_type_to_string 1 = ''CHERI data fault due to load, store or AMO''"
    "ec_to_string 0x24 = ''Data Abort from a lower Exception level''"
    "data_abort_dfsc_to_string 0x21 = ''alignment fault''"
    "usban_code_to_string 18 = ''out of bounds access''"
    by code_simp+
  from m(1,2) b n o A B C D show ?thesis
    by (intro conjI)
qed

text \<open>
  Claim C10. The first statement after the receive reads \<^verbatim>\<open>pd_tcbs[badge]\<close>, before any
  test of the badge; with badge 64 that read is outside the array of \<^verbatim>\<open>MAX_PDS = 64\<close>
  entries. Where the read traps the round ends there; where it returns, the word it
  found is used as the TCB reference (it is printed before \<^verbatim>\<open>fail\<close>).
\<close>

theorem pd_tcbs_read_out_of_bounds:
  "array_read MAX_PDS (pd_tcbs reg) (unat (64 :: 64 word)) = Out_Of_Bounds
   \<and> monitor_round abi reg (m\<lparr>recv_badge := 64, stray_read := None\<rparr>) tr = (Bounds_Trap, tr)
   \<and> monitor_round abi reg (m\<lparr>recv_badge := 64, stray_read := Some w\<rparr>) tr
       = monitor_dispatch abi reg (m\<lparr>recv_badge := 64, stray_read := Some w\<rparr>) w tr"
  by (simp add: monitor_round_def array_read_def MAX_PDS_def)

end
